theory Spec2Isabelle
  imports Main "HOL-Library.Sublist"
begin

section \<open>Python primitives used by myDisassembler.py\<close>

text \<open>
  The disassembler works on Python strings and unbounded integers. Strings are
  \<open>char list\<close>, integers are \<open>int\<close> (\<open>nat\<close> for list positions). Every
  way in which the script can stop early is a value of \<open>error\<close>: the script's own
  \<open>errorOut\<close> (message, then \<open>sys.exit(1)\<close>) and the three uncaught exceptions
  that its string handling can raise.
\<close>

datatype error =
    ErrorOut string nat
  | TypeError
  | IndexError
  | ValueError

definition ebind :: "error + 'a \<Rightarrow> ('a \<Rightarrow> error + 'b) \<Rightarrow> error + 'b" where
  "ebind m f = (case m of Inl e \<Rightarrow> Inl e | Inr x \<Rightarrow> f x)"

text \<open>\<open>s[k]\<close> for a position \<open>k \<ge> 0\<close>: IndexError when out of range.\<close>

definition py_index :: "'a list \<Rightarrow> nat \<Rightarrow> error + 'a" where
  "py_index s k = (if k < length s then Inr (s ! k) else Inl IndexError)"

text \<open>\<open>s[a:]\<close> with a possibly negative start, which Python counts from the end
  and clamps at the start of the string.\<close>

definition slice_from :: "int \<Rightarrow> 'a list \<Rightarrow> 'a list" where
  "slice_from a s =
     (let a' = (if a < 0 then max 0 (a + int (length s)) else a) in drop (nat a') s)"

text \<open>\<open>a + b\<close> on the results of \<open>dict.get\<close>: both operands must be strings;
  \<open>None\<close> on either side raises TypeError.\<close>

definition str_add :: "string option \<Rightarrow> string option \<Rightarrow> error + string" where
  "str_add a b =
     (case a of None \<Rightarrow> Inl TypeError
      | Some x \<Rightarrow> (case b of None \<Rightarrow> Inl TypeError | Some y \<Rightarrow> Inr (x @ y)))"

text \<open>Digits of \<open>hex\<close>, \<open>bin\<close> and \<open>str\<close> (lower case), most significant first.\<close>

definition digit_char :: "nat \<Rightarrow> char" where
  "digit_char d = ''0123456789abcdef'' ! d"

fun to_base :: "nat \<Rightarrow> nat \<Rightarrow> string" where
  "to_base b n =
     (if n < b \<or> b < 2 then [digit_char n] else to_base b (n div b) @ [digit_char (n mod b)])"

declare to_base.simps [simp del]

definition hex_py :: "int \<Rightarrow> string" where
  "hex_py i = (if i < 0 then ''-0x'' @ to_base 16 (nat (- i)) else ''0x'' @ to_base 16 (nat i))"

definition bin_py :: "int \<Rightarrow> string" where
  "bin_py i = (if i < 0 then ''-0b'' @ to_base 2 (nat (- i)) else ''0b'' @ to_base 2 (nat i))"

definition str_py :: "int \<Rightarrow> string" where
  "str_py i = (if i < 0 then CHR ''-'' # to_base 10 (nat (- i)) else to_base 10 (nat i))"

text \<open>
  \<open>int(s, base)\<close>: surrounding whitespace is dropped, one sign is allowed, then at
  least one digit, each below the base; letters count in either case. Anything else is a
  ValueError. (Python also reads \<open>_\<close> between digits and a base prefix such as
  \<open>0x\<close>; strings of that form are outside the 8-digit words the script is fed and
  are not modelled.)
\<close>

definition digit_value :: "char \<Rightarrow> nat option" where
  "digit_value = map_of
     [(CHR ''0'', 0), (CHR ''1'', 1), (CHR ''2'', 2), (CHR ''3'', 3), (CHR ''4'', 4),
      (CHR ''5'', 5), (CHR ''6'', 6), (CHR ''7'', 7), (CHR ''8'', 8), (CHR ''9'', 9),
      (CHR ''a'', 10), (CHR ''b'', 11), (CHR ''c'', 12), (CHR ''d'', 13), (CHR ''e'', 14),
      (CHR ''f'', 15),
      (CHR ''A'', 10), (CHR ''B'', 11), (CHR ''C'', 12), (CHR ''D'', 13), (CHR ''E'', 14),
      (CHR ''F'', 15)]"

fun digits_value :: "nat \<Rightarrow> nat \<Rightarrow> string \<Rightarrow> error + nat" where
  "digits_value b acc [] = Inr acc"
| "digits_value b acc (c # cs) =
     (case digit_value c of
        None \<Rightarrow> Inl ValueError
      | Some d \<Rightarrow> if d < b then digits_value b (acc * b + d) cs else Inl ValueError)"

definition py_space :: "char \<Rightarrow> bool" where
  "py_space c = (c \<in> set [CHR '' '', CHR 0x09, CHR 0x0A, CHR 0x0B, CHR 0x0C, CHR 0x0D,
                           CHR 0x1C, CHR 0x1D, CHR 0x1E, CHR 0x1F])"

text \<open>\<open>s.strip(chars)\<close>: removes leading and trailing characters of the given set.\<close>

definition strip_chars :: "(char \<Rightarrow> bool) \<Rightarrow> string \<Rightarrow> string" where
  "strip_chars p s = rev (dropWhile p (rev (dropWhile p s)))"

definition nat_literal :: "nat \<Rightarrow> string \<Rightarrow> error + nat" where
  "nat_literal b s = (if s = [] then Inl ValueError else digits_value b 0 s)"

definition int_py :: "nat \<Rightarrow> string \<Rightarrow> error + int" where
  "int_py b s =
     (case strip_chars py_space s of
        [] \<Rightarrow> Inl ValueError
      | c # cs \<Rightarrow>
          if c = CHR ''-'' then ebind (nat_literal b cs) (\<lambda>n. Inr (- int n))
          else if c = CHR ''+'' then ebind (nat_literal b cs) (\<lambda>n. Inr (int n))
          else ebind (nat_literal b (c # cs)) (\<lambda>n. Inr (int n)))"

text \<open>\<open>s.replace('0x', '')\<close>: every occurrence, left to right, without overlap.\<close>

fun remove_0x :: "string \<Rightarrow> string" where
  "remove_0x (a # b # cs) =
     (if a = CHR ''0'' \<and> b = CHR ''x'' then remove_0x cs else a # remove_0x (b # cs))"
| "remove_0x cs = cs"

text \<open>\<open>s.zfill(w)\<close> on a string without a sign: zeros on the left up to width \<open>w\<close>.\<close>

definition zfill :: "nat \<Rightarrow> string \<Rightarrow> string" where
  "zfill w s = replicate (w - length s) CHR ''0'' @ s"

definition startswith :: "string \<Rightarrow> string \<Rightarrow> bool" where
  "startswith s p = (take (length p) s = p)"

text \<open>\<open>xs.insert(k, x)\<close> for \<open>k \<ge> 0\<close>: a position past the end appends.\<close>

definition list_insert :: "nat \<Rightarrow> 'a \<Rightarrow> 'a list \<Rightarrow> 'a list" where
  "list_insert k x xs = take k xs @ [x] @ drop k xs"

section \<open>The lookup tables\<close>

definition rOpcodes :: "(string \<times> string) list" where
  "rOpcodes =
     [(''0x0'', ''sll''), (''0x2'', ''srl''), (''0x20'', ''add''), (''0x21'', ''addu''),
      (''0x22'', ''sub''), (''0x23'', ''subu''), (''0x24'', ''and''), (''0x25'', ''or''),
      (''0x27'', ''nor''), (''0x2a'', ''slt''), (''0x2b'', ''sltu'')]"

definition iOpcodes :: "(string \<times> string) list" where
  "iOpcodes =
     [(''0x4'', ''beq''), (''0x5'', ''bne''), (''0x8'', ''addi''), (''0x9'', ''addiu''),
      (''0xa'', ''slti''), (''0xb'', ''sltiu''), (''0xc'', ''andi''), (''0xd'', ''ori''),
      (''0xf'', ''lui''), (''0x23'', ''lw''), (''0x24'', ''lbu''), (''0x25'', ''lhu''),
      (''0x28'', ''sb''), (''0x29'', ''sh''), (''0x30'', ''ll''), (''0x38'', ''sc''),
      (''0x2b'', ''sw'')]"

definition registerDictionary :: "(string \<times> string) list" where
  "registerDictionary =
     [(''00000'', ''$zero''), (''00001'', ''$at''), (''00010'', ''$v0''), (''00011'', ''$v1''),
      (''00100'', ''$a0''), (''00101'', ''$a1''), (''00110'', ''$a2''), (''00111'', ''$a3''),
      (''01000'', ''$t0''), (''01001'', ''$t1''), (''01010'', ''$t2''), (''01011'', ''$t3''),
      (''01100'', ''$t4''), (''01101'', ''$t5''), (''01110'', ''$t6''), (''01111'', ''$t7''),
      (''10000'', ''$s0''), (''10001'', ''$s1''), (''10010'', ''$s2''), (''10011'', ''$s3''),
      (''10100'', ''$s4''), (''10101'', ''$s5''), (''10110'', ''$s6''), (''10111'', ''$s7''),
      (''11000'', ''$t8''), (''11001'', ''$t9''), (''11010'', ''$k0''), (''11011'', ''$k1''),
      (''11100'', ''$gp''), (''11101'', ''$sp''), (''11110'', ''$fp''), (''11111'', ''$ra'')]"

definition hexToBinLookup :: "(char \<times> string) list" where
  "hexToBinLookup =
     [(CHR ''0'', ''0000''), (CHR ''1'', ''0001''), (CHR ''2'', ''0010''), (CHR ''3'', ''0011''),
      (CHR ''4'', ''0100''), (CHR ''5'', ''0101''), (CHR ''6'', ''0110''), (CHR ''7'', ''0111''),
      (CHR ''8'', ''1000''), (CHR ''9'', ''1001''), (CHR ''a'', ''1010''), (CHR ''b'', ''1011''),
      (CHR ''c'', ''1100''), (CHR ''d'', ''1101''), (CHR ''e'', ''1110''), (CHR ''f'', ''1111'')]"

section \<open>Field extraction\<close>

text \<open>\<open>errorOut\<close> prints ``Cannot disassemble <instruction> at line <index>'' and
  leaves with status 1; nothing after the call runs.\<close>

definition errorOut :: "string \<Rightarrow> nat \<Rightarrow> error + 'a" where
  "errorOut instruction index = Inl (ErrorOut instruction index)"

definition getOpCode :: "string \<Rightarrow> error + string" where
  "getOpCode hexValueAsString =
     (let hexValSplit = take 2 hexValueAsString in
      ebind (int_py 16 hexValSplit) (\<lambda>n. Inr (hex_py (n div 4))))"

definition getRTypeFunction :: "string \<Rightarrow> nat \<Rightarrow> error + string" where
  "getRTypeFunction hexValueAsString index =
     (let hexValSplit = slice_from (int (length hexValueAsString) - 4) hexValueAsString in
      ebind (int_py 16 hexValSplit) (\<lambda>n.
        let hexValShifted = hex_py (n mod 64) in
        case map_of rOpcodes hexValShifted of
          None \<Rightarrow> errorOut hexValueAsString index
        | Some f \<Rightarrow> Inr f))"

text \<open>The three register getters read two hex digits through \<open>hexToBinLookup\<close>,
  join the two 4-bit strings and look a 5-character slice up in the register table.\<close>

definition two_nibbles :: "string \<Rightarrow> nat \<Rightarrow> nat \<Rightarrow> error + string" where
  "two_nibbles h i j =
     ebind (py_index h i) (\<lambda>a.
     ebind (py_index h j) (\<lambda>b.
     str_add (map_of hexToBinLookup a) (map_of hexToBinLookup b)))"

definition register_of :: "string \<Rightarrow> string \<Rightarrow> nat \<Rightarrow> error + string" where
  "register_of key hexValueAsString index =
     (case map_of registerDictionary key of
        None \<Rightarrow> errorOut hexValueAsString index
      | Some r \<Rightarrow> Inr r)"

definition getRTypeRDRegister :: "string \<Rightarrow> nat \<Rightarrow> error + string" where
  "getRTypeRDRegister hexValueAsString index =
     ebind (two_nibbles hexValueAsString 4 5) (\<lambda>binString.
       register_of (take 5 binString) hexValueAsString index)"

definition getRSRegister :: "string \<Rightarrow> nat \<Rightarrow> error + string" where
  "getRSRegister hexValueAsString index =
     ebind (two_nibbles hexValueAsString 1 2) (\<lambda>binString.
       register_of (take 5 (drop 2 binString)) hexValueAsString index)"

definition getRTRegister :: "string \<Rightarrow> nat \<Rightarrow> error + string" where
  "getRTRegister hexValueAsString index =
     ebind (two_nibbles hexValueAsString 2 3) (\<lambda>binString.
       register_of (drop 3 binString) hexValueAsString index)"

definition getRTypeShamt :: "string \<Rightarrow> error + string" where
  "getRTypeShamt hexValueAsString =
     ebind (two_nibbles hexValueAsString 5 6) (\<lambda>binString.
     ebind (int_py 2 (take 5 (drop 1 binString))) (\<lambda>n. Inr (str_py n)))"

definition getITypeImmediate :: "string \<Rightarrow> error + string" where
  "getITypeImmediate hexValueAsString =
     ebind (two_nibbles hexValueAsString 4 5) (\<lambda>b45.
     ebind (py_index hexValueAsString 6) (\<lambda>c6.
     ebind (str_add (Some b45) (map_of hexToBinLookup c6)) (\<lambda>b456.
     ebind (py_index hexValueAsString 7) (\<lambda>c7.
     ebind (str_add (Some b456) (map_of hexToBinLookup c7)) (\<lambda>binString.
     ebind (int_py 2 binString) (\<lambda>n. Inr (str_py n)))))))"

section \<open>Two's complement of the branch immediate\<close>

definition invert_bit :: "char \<Rightarrow> char" where
  "invert_bit c = (if c = CHR ''0'' then CHR ''1'' else if c = CHR ''1'' then CHR ''0'' else c)"

definition twosCM :: "string \<Rightarrow> error + string" where
  "twosCM immediate =
     ebind (int_py 10 immediate) (\<lambda>n.
       let binString = strip_chars (\<lambda>c. c \<in> set ''0b'') (bin_py (n mod 65536));
           listedBinString =
             map (\<lambda>(i, c). if i > 0 then invert_bit c else c) (enumerate 0 binString)
       in ebind (int_py 10 listedBinString) (\<lambda>t. Inr (str_py (t + 1))))"

definition getSignedInteger :: "string \<Rightarrow> error + string" where
  "getSignedInteger twosCM_str =
     ebind (py_index twosCM_str 0) (\<lambda>signBit.
       if signBit = CHR ''0''
       then ebind (int_py 2 (drop 1 twosCM_str)) (\<lambda>n. Inr (str_py n))
       else ebind (int_py 2 (drop 1 twosCM_str)) (\<lambda>n. Inr (str_py (n * - 1))))"

section \<open>The decode loop of main\<close>

text \<open>The state that \<open>main\<close> carries from one input line to the next: the output
  buffer \<open>listQ\<close> and the pending forward label (\<open>checkIndex\<close>, \<open>tempAddress\<close>).\<close>

record state =
  listQ :: "string list"
  tempAddress :: string
  checkIndex :: int

definition fmt4 :: "string \<Rightarrow> string \<Rightarrow> string \<Rightarrow> string \<Rightarrow> string" where
  "fmt4 a b c d = CHR 0x09 # a @ '', '' @ b @ '', '' @ c @ '', '' @ d"

definition fmt_mem :: "string \<Rightarrow> string \<Rightarrow> string \<Rightarrow> string \<Rightarrow> string" where
  "fmt_mem a b c d = CHR 0x09 # a @ '', '' @ b @ '', '' @ c @ ''('' @ d @ '')''"

definition fmt_label :: "string \<Rightarrow> string" where
  "fmt_label a = ''Addr_'' @ a @ '':''"

definition append_line :: "string \<Rightarrow> state \<Rightarrow> state" where
  "append_line msg s = s\<lparr>listQ := listQ s @ [msg]\<rparr>"

text \<open>The \<open>beq\<close>/\<open>bne\<close> branch of the loop body (source lines 282 to 311).\<close>

definition branch_step ::
  "nat \<Rightarrow> string \<Rightarrow> string \<Rightarrow> string \<Rightarrow> string \<Rightarrow> state \<Rightarrow> error + state" where
  "branch_step index func rs rt im s =
     (if int index = checkIndex s
      then Inr (append_line (fmt_label (tempAddress s)) s)
      else ebind (int_py 10 im) (\<lambda>r.
        if r \<ge> 32768 then
          ebind (twosCM im) (\<lambda>tcm.
          ebind (getSignedInteger tcm) (\<lambda>signedInt.
          ebind (int_py 10 signedInt) (\<lambda>d.
            let tempIndex = (if int index + d < 0 then 0 else nat (int index + d));
                hexAddr = zfill 4 (remove_0x (hex_py (int tempIndex * 4)))
            in ebind (py_index (listQ s) tempIndex) (\<lambda>line.
                 let s' = (if startswith line ''Addr'' then s
                           else s\<lparr>listQ := list_insert tempIndex (fmt_label hexAddr) (listQ s)\<rparr>)
                 in Inr (append_line (fmt4 func rt rs (''Addr_'' @ hexAddr)) s')))))
        else
          let checkIndex' = int index + r;
              tempAddress' = zfill 4 (remove_0x (hex_py (checkIndex' * 4 + 4)))
          in Inr (append_line (fmt4 func rt rs (''Addr_'' @ tempAddress'))
                   (s\<lparr>checkIndex := checkIndex', tempAddress := tempAddress'\<rparr>))))"

text \<open>One iteration of the \<open>for index, value in enumerate(hex_values)\<close> loop. The
  \<open>case\<close> on the table lookup is the \<open>elif opcode in iOpcodes.keys()\<close> of line
  268 together with \<open>func = iOpcodes.get(opcode)\<close>; inside it stands the test of
  line 269 with its \<open>errorOut\<close>. A line whose opcode is neither \<open>0x0\<close> nor a key
  of \<open>iOpcodes\<close> takes neither arm of the \<open>if\<close>/\<open>elif\<close>, and the loop goes on
  with the state unchanged.\<close>

definition main_step :: "nat \<Rightarrow> string \<Rightarrow> state \<Rightarrow> error + state" where
  "main_step index val s =
     ebind (getOpCode val) (\<lambda>opcode.
     if opcode = ''0x0'' then
       ebind (getRTypeFunction val index) (\<lambda>func.
       ebind (getRTypeRDRegister val index) (\<lambda>rd.
       ebind (getRSRegister val index) (\<lambda>rs.
       ebind (getRTRegister val index) (\<lambda>rt.
       ebind (getRTypeShamt val) (\<lambda>sh.
         if func = ''srl'' \<or> func = ''sll''
         then Inr (append_line (fmt4 func rd rt sh) s)
         else Inr (append_line (fmt4 func rd rs rt) s))))))
     else (case map_of iOpcodes opcode of
         None \<Rightarrow> Inr s
       | Some func \<Rightarrow>
         ebind (if map_of iOpcodes opcode = None then errorOut val index else Inr ()) (\<lambda>_.
         ebind (getRSRegister val index) (\<lambda>rs.
         ebind (getRTRegister val index) (\<lambda>rt.
         ebind (getITypeImmediate val) (\<lambda>im.
           if func = ''sw'' \<or> func = ''lw''
           then Inr (append_line (fmt_mem func rt im rs) s)
           else if func = ''beq'' \<or> func = ''bne''
           then branch_step index func rs rt im s
           else Inr (append_line (fmt4 func rt rs im) s)))))))"

fun main_loop :: "nat \<Rightarrow> string list \<Rightarrow> state \<Rightarrow> error + state" where
  "main_loop index [] s = Inr s"
| "main_loop index (val # rest) s =
     ebind (main_step index val s) (\<lambda>s'. main_loop (Suc index) rest s')"

text \<open>\<open>main\<close> returns the lines it prints and writes to the \<open>.s\<close> file; an error
  means the script stopped before the file was opened.\<close>

definition main :: "string list \<Rightarrow> error + string list" where
  "main hex_values =
     ebind (main_loop 0 hex_values \<lparr>listQ = [], tempAddress = [], checkIndex = 0\<rparr>)
       (\<lambda>s. Inr (listQ s))"

section \<open>Well-formed input\<close>

text \<open>The words the script is written for: eight hexadecimal digits, letters in lower
  case (the only spelling \<open>hexToBinLookup\<close> knows). \<open>is_bit\<close> describes the
  characters of the binary strings built from them.\<close>

definition is_bit :: "char \<Rightarrow> bool" where
  "is_bit c = (c = CHR ''0'' \<or> c = CHR ''1'')"

definition lower_hex :: "char \<Rightarrow> bool" where
  "lower_hex c = (c \<in> set ''0123456789abcdef'')"

definition hex_word :: "string \<Rightarrow> bool" where
  "hex_word w = (length w = 8 \<and> list_all lower_hex w)"

section \<open>Rules for running the model on a concrete input\<close>

text \<open>\<open>ebind\<close> and \<open>let\<close> are evaluated argument first (the weak congruence
  rules keep the simplifier out of the continuation until its argument is a value).\<close>

lemma ebind_Inl: "ebind (Inl e) f = Inl e"
  by (simp add: ebind_def)

lemma ebind_Inr: "ebind (Inr x) f = f x"
  by (simp add: ebind_def)

lemma ebind_weak_cong: "m = m' \<Longrightarrow> ebind m f = ebind m' f"
  by simp

lemma replicate_numeral: "replicate (numeral k) x = x # replicate (pred_numeral k) x"
  by (simp add: numeral_eq_Suc)

lemmas prim_eval = ebind_Inl ebind_Inr py_index_def slice_from_def str_add_def digit_char_def
  to_base.simps hex_py_def bin_py_def str_py_def digit_value_def py_space_def strip_chars_def
  nat_literal_def int_py_def zfill_def startswith_def list_insert_def invert_bit_def Let_def
  replicate_numeral

lemmas field_eval = rOpcodes_def iOpcodes_def registerDictionary_def hexToBinLookup_def
  errorOut_def getOpCode_def getRTypeFunction_def two_nibbles_def register_of_def
  getRTypeRDRegister_def getRSRegister_def getRTRegister_def getRTypeShamt_def
  getITypeImmediate_def

lemmas main_eval = twosCM_def getSignedInteger_def fmt4_def fmt_mem_def fmt_label_def
  append_line_def branch_step_def main_step_def main_def

lemmas eval_cong = ebind_weak_cong let_weak_cong

section \<open>Facts about the lookup tables and the digit strings\<close>

lemma ebind_eq_Inr: "ebind m f = Inr y \<longleftrightarrow> (\<exists>x. m = Inr x \<and> f x = Inr y)"
  by (cases m) (simp_all add: ebind_def)

lemma ebind_eq_Inl: "ebind m f = Inl e \<longleftrightarrow> m = Inl e \<or> (\<exists>x. m = Inr x \<and> f x = Inl e)"
  by (cases m) (simp_all add: ebind_def)

lemma hexToBinLookup_bits:
  "map_of hexToBinLookup c = Some bs \<Longrightarrow> length bs = 4 \<and> list_all is_bit bs"
  by (auto simp: hexToBinLookup_def is_bit_def split: if_splits)

lemma hexToBinLookup_lower_hex:
  "lower_hex c \<Longrightarrow> \<exists>bs. map_of hexToBinLookup c = Some bs"
  by (auto simp: hexToBinLookup_def lower_hex_def)

lemma two_nibbles_bits:
  assumes "two_nibbles h i j = Inr bs"
  shows "length bs = 8 \<and> list_all is_bit bs"
proof -
  from assms obtain x y where "map_of hexToBinLookup (h ! i) = Some x"
    "map_of hexToBinLookup (h ! j) = Some y" "bs = x @ y"
    by (auto simp: two_nibbles_def ebind_eq_Inr py_index_def str_add_def
             split: if_splits option.splits)
  then show ?thesis using hexToBinLookup_bits[of "h ! i" x] hexToBinLookup_bits[of "h ! j" y]
    by simp
qed

lemma two_nibbles_error:
  "two_nibbles h i j = Inl e \<Longrightarrow> e = IndexError \<or> e = TypeError"
  by (auto simp: two_nibbles_def ebind_eq_Inl py_index_def str_add_def
           split: if_splits option.splits)

lemma two_nibbles_hex:
  assumes "i < length h" "j < length h" "lower_hex (h ! i)" "lower_hex (h ! j)"
  shows "\<exists>bs. two_nibbles h i j = Inr bs"
  using assms hexToBinLookup_lower_hex[of "h ! i"] hexToBinLookup_lower_hex[of "h ! j"]
  by (auto simp: two_nibbles_def ebind_def py_index_def str_add_def)

lemma registerDictionary_total:
  assumes "length key = 5" "list_all is_bit key"
  shows "\<exists>r. map_of registerDictionary key = Some r"
proof -
  from assms(1) obtain a b c d e where key: "key = [a, b, c, d, e]"
    by (auto simp: length_Suc_conv eval_nat_numeral)
  with assms(2) have "is_bit a" "is_bit b" "is_bit c" "is_bit d" "is_bit e" by simp_all
  then show ?thesis unfolding key is_bit_def
    by (elim disjE; simp add: registerDictionary_def)
qed

lemma register_of_bits:
  assumes "length key = 5" "list_all is_bit key"
  shows "\<exists>r. register_of key w i = Inr r \<and> r \<in> snd ` set registerDictionary"
proof -
  from registerDictionary_total[OF assms] obtain r where r: "map_of registerDictionary key = Some r"
    by blast
  then have "(key, r) \<in> set registerDictionary" by (rule map_of_SomeD)
  then have "r \<in> snd ` set registerDictionary" by force
  with r show ?thesis by (simp add: register_of_def)
qed

lemma less_16_cases:
  "(d::nat) < 16 \<Longrightarrow> d = 0 \<or> d = 1 \<or> d = 2 \<or> d = 3 \<or> d = 4 \<or> d = 5 \<or> d = 6 \<or> d = 7 \<or>
     d = 8 \<or> d = 9 \<or> d = 10 \<or> d = 11 \<or> d = 12 \<or> d = 13 \<or> d = 14 \<or> d = 15"
  by arith

lemma digit_value_digit_char: "d < 16 \<Longrightarrow> digit_value (digit_char d) = Some d"
  by (drule less_16_cases) (elim disjE; simp add: digit_char_def digit_value_def)

lemma digit_char_plain:
  "d < 16 \<Longrightarrow> \<not> py_space (digit_char d) \<and> digit_char d \<noteq> CHR ''-'' \<and>
     digit_char d \<noteq> CHR ''+'' \<and> digit_char d \<noteq> CHR ''x''"
  by (drule less_16_cases) (elim disjE; simp add: digit_char_def py_space_def)

lemma digits_value_append:
  "digits_value b acc (xs @ ys) = ebind (digits_value b acc xs) (\<lambda>v. digits_value b v ys)"
  by (induction xs arbitrary: acc) (auto simp: ebind_def split: option.splits)

lemma to_base_small: "n < b \<Longrightarrow> to_base b n = [digit_char n]"
  by (subst to_base.simps) simp

lemma to_base_step:
  "2 \<le> b \<Longrightarrow> b \<le> n \<Longrightarrow> to_base b n = to_base b (n div b) @ [digit_char (n mod b)]"
  by (subst to_base.simps) simp

lemma to_base_nonempty: "to_base b n \<noteq> []"
  by (subst to_base.simps) simp

lemma to_base_chars:
  "2 \<le> b \<Longrightarrow> c \<in> set (to_base b n) \<Longrightarrow> \<exists>d<b. c = digit_char d"
proof (induction b n rule: to_base.induct)
  case (1 b n)
  show ?case
  proof (cases "n < b")
    case True
    with "1.prems" show ?thesis by (auto simp: to_base_small)
  next
    case False
    with "1.prems" have "c \<in> set (to_base b (n div b)) \<or> c = digit_char (n mod b)"
      by (auto simp: to_base_step)
    then show ?thesis
    proof
      assume "c \<in> set (to_base b (n div b))"
      with "1.IH" False "1.prems"(1) show ?thesis by simp
    next
      assume "c = digit_char (n mod b)"
      moreover have "n mod b < b" using "1.prems"(1) by simp
      ultimately show ?thesis by blast
    qed
  qed
qed

lemma digits_value_to_base:
  "2 \<le> b \<Longrightarrow> b \<le> 16 \<Longrightarrow> digits_value b 0 (to_base b n) = Inr n"
proof (induction b n rule: to_base.induct)
  case (1 b n)
  show ?case
  proof (cases "n < b")
    case True
    with "1.prems" have "digit_value (digit_char n) = Some n"
      by (intro digit_value_digit_char) simp
    with True show ?thesis by (simp add: to_base_small)
  next
    case False
    with "1.IH" "1.prems" have ih: "digits_value b 0 (to_base b (n div b)) = Inr (n div b)"
      by simp
    have "n mod b < 16" using "1.prems" by (meson less_le_trans mod_less_divisor not_less zero_less_numeral le_trans less_imp_le)
    then have dv: "digit_value (digit_char (n mod b)) = Some (n mod b)"
      by (rule digit_value_digit_char)
    have "n mod b < b" using "1.prems"(1) by simp
    with False "1.prems" ih dv show ?thesis
      by (simp add: to_base_step digits_value_append ebind_def)
  qed
qed

lemma strip_chars_id:
  "s \<noteq> [] \<Longrightarrow> \<not> p (hd s) \<Longrightarrow> \<not> p (last s) \<Longrightarrow> strip_chars p s = s"
proof -
  assume a: "s \<noteq> []" "\<not> p (hd s)" "\<not> p (last s)"
  then have 1: "dropWhile p s = s" by (simp add: dropWhile_eq_self_iff)
  from a have "dropWhile p (rev s) = rev s" by (simp add: dropWhile_eq_self_iff hd_rev)
  with 1 show ?thesis by (simp add: strip_chars_def)
qed

lemma to_base_hd_last_plain:
  assumes "2 \<le> b" "b \<le> 16"
  shows "\<not> py_space (hd (to_base b n)) \<and> \<not> py_space (last (to_base b n)) \<and>
         hd (to_base b n) \<noteq> CHR ''-'' \<and> hd (to_base b n) \<noteq> CHR ''+''"
proof -
  have ne: "to_base b n \<noteq> []" by (rule to_base_nonempty)
  then have "hd (to_base b n) \<in> set (to_base b n)" "last (to_base b n) \<in> set (to_base b n)"
    by simp_all
  then obtain d e where "d < b" "hd (to_base b n) = digit_char d"
    "e < b" "last (to_base b n) = digit_char e"
    using to_base_chars[OF assms(1)] by blast
  with assms(2) show ?thesis
    using digit_char_plain[of d] digit_char_plain[of e] by simp
qed

lemma int_py_to_base:
  assumes "2 \<le> b" "b \<le> 16"
  shows "int_py b (to_base b n) = Inr (int n)"
proof -
  obtain c cs where cs: "to_base b n = c # cs"
    using to_base_nonempty[of b n] by (cases "to_base b n") auto
  have plain: "\<not> py_space (hd (to_base b n))" "\<not> py_space (last (to_base b n))"
    "hd (to_base b n) \<noteq> CHR ''-''" "hd (to_base b n) \<noteq> CHR ''+''"
    using to_base_hd_last_plain[OF assms] by simp_all
  have "strip_chars py_space (to_base b n) = to_base b n"
    using plain by (intro strip_chars_id to_base_nonempty)
  moreover have "nat_literal b (c # cs) = Inr n"
    using digits_value_to_base[OF assms, of n] cs by (simp add: nat_literal_def)
  ultimately show ?thesis using plain cs by (simp add: int_py_def ebind_def)
qed

lemma int_py_str_py: "int_py 10 (str_py i) = Inr i"
proof (cases "i < 0")
  case False
  then show ?thesis using int_py_to_base[of 10 "nat i"] by (simp add: str_py_def)
next
  case True
  let ?ds = "to_base 10 (nat (- i))"
  have plain: "\<not> py_space (last ?ds)"
    using to_base_hd_last_plain[of 10 "nat (- i)"] by simp
  have "strip_chars py_space (CHR ''-'' # ?ds) = CHR ''-'' # ?ds"
    using plain to_base_nonempty[of 10 "nat (- i)"]
    by (intro strip_chars_id) (simp_all add: py_space_def)
  moreover have "nat_literal 10 ?ds = Inr (nat (- i))"
    using digits_value_to_base[of 10 "nat (- i)"] to_base_nonempty[of 10 "nat (- i)"]
    by (simp add: nat_literal_def)
  ultimately show ?thesis using True by (simp add: int_py_def str_py_def ebind_def)
qed

lemma is_bit_plain:
  "is_bit c \<Longrightarrow> \<not> py_space c \<and> c \<noteq> CHR ''-'' \<and> c \<noteq> CHR ''+''"
  unfolding is_bit_def by (elim disjE; simp add: py_space_def)

lemma is_bit_digit_value:
  "is_bit c \<Longrightarrow> digit_value c = Some (if c = CHR ''1'' then 1 else 0)"
  unfolding is_bit_def by (elim disjE; simp add: digit_value_def)

lemma is_bit_invert: "is_bit c \<Longrightarrow> is_bit (invert_bit c)"
  unfolding is_bit_def by (elim disjE; simp add: invert_bit_def)

lemma int_py_bits:
  assumes "list_all is_bit s" "s \<noteq> []"
  shows "int_py b s = ebind (digits_value b 0 s) (\<lambda>n. Inr (int n))"
proof -
  from assms obtain c cs where s: "s = c # cs" by (cases s) auto
  from assms have "is_bit (hd s)" "is_bit (last s)"
    by (simp_all add: list_all_iff)
  then have plain: "\<not> py_space (hd s)" "\<not> py_space (last s)" "hd s \<noteq> CHR ''-''" "hd s \<noteq> CHR ''+''"
    using is_bit_plain by blast+
  then have "strip_chars py_space s = s" using assms(2) by (intro strip_chars_id)
  with plain s show ?thesis by (simp add: int_py_def nat_literal_def)
qed

lemma bits_value:
  "list_all is_bit xs \<Longrightarrow>
   \<exists>v w. v + w + 1 = 2 ^ length xs \<and>
     (\<forall>acc. digits_value 2 acc xs = Inr (acc * 2 ^ length xs + v)) \<and>
     (\<forall>acc. digits_value 2 acc (map invert_bit xs) = Inr (acc * 2 ^ length xs + w))"
proof (induction xs)
  case Nil
  then show ?case by simp
next
  case (Cons c xs)
  then obtain v w where vw: "v + w + 1 = 2 ^ length xs"
    and v: "\<And>acc. digits_value 2 acc xs = Inr (acc * 2 ^ length xs + v)"
    and w: "\<And>acc. digits_value 2 acc (map invert_bit xs) = Inr (acc * 2 ^ length xs + w)"
    by auto
  from Cons.prems have "c = CHR ''0'' \<or> c = CHR ''1''" by (simp add: is_bit_def)
  then show ?case
  proof
    assume c: "c = CHR ''0''"
    have "v + (2 ^ length xs + w) + 1 = 2 ^ length (c # xs)" using vw by simp
    moreover have "\<forall>acc. digits_value 2 acc (c # xs) = Inr (acc * 2 ^ length (c # xs) + v)"
      using v c by (simp add: digit_value_def algebra_simps)
    moreover have "\<forall>acc. digits_value 2 acc (map invert_bit (c # xs)) =
        Inr (acc * 2 ^ length (c # xs) + (2 ^ length xs + w))"
      using w c by (simp add: digit_value_def invert_bit_def algebra_simps)
    ultimately show ?thesis by blast
  next
    assume c: "c = CHR ''1''"
    have "(2 ^ length xs + v) + w + 1 = 2 ^ length (c # xs)" using vw by simp
    moreover have "\<forall>acc. digits_value 2 acc (c # xs) =
        Inr (acc * 2 ^ length (c # xs) + (2 ^ length xs + v))"
      using v c by (simp add: digit_value_def algebra_simps)
    moreover have "\<forall>acc. digits_value 2 acc (map invert_bit (c # xs)) =
        Inr (acc * 2 ^ length (c # xs) + w)"
      using w c by (simp add: digit_value_def invert_bit_def algebra_simps)
    ultimately show ?thesis by blast
  qed
qed

lemma bits_reprint:
  assumes "2 \<le> b" "b \<le> 16"
  shows "list_all is_bit s \<Longrightarrow> s \<noteq> [] \<Longrightarrow> hd s = CHR ''1'' \<Longrightarrow>
         \<exists>v>0. digits_value b 0 s = Inr v \<and> to_base b v = s"
proof (induction s rule: rev_induct)
  case Nil
  then show ?case by simp
next
  case (snoc c xs)
  from snoc.prems have c: "c = CHR ''0'' \<or> c = CHR ''1''" by (simp add: is_bit_def)
  define d :: nat where "d = (if c = CHR ''1'' then 1 else 0)"
  have dv: "digit_value c = Some d" "d < b" "digit_char d = c"
    using c assms by (elim disjE; simp add: d_def digit_value_def digit_char_def)+
  show ?case
  proof (cases "xs = []")
    case True
    with snoc.prems have "c = CHR ''1''" by simp
    with True dv assms show ?thesis by (auto simp: d_def to_base_small)
  next
    case False
    with snoc obtain v where v: "v > 0" "digits_value b 0 xs = Inr v" "to_base b v = xs"
      by auto
    have ge: "b \<le> v * b + d" using v(1) by (cases v) simp_all
    have "to_base b (v * b + d) = to_base b ((v * b + d) div b) @ [digit_char ((v * b + d) mod b)]"
      using assms(1) ge by (rule to_base_step)
    also have "(v * b + d) div b = v" using dv(2) by simp
    also have "(v * b + d) mod b = d" using dv(2) by simp
    finally have "to_base b (v * b + d) = xs @ [c]" using v(3) dv(3) by simp
    moreover have "digits_value b 0 (xs @ [c]) = Inr (v * b + d)"
      using v(2) dv by (simp add: digits_value_append ebind_def)
    moreover have "v * b + d > 0" using v(1) assms(1) by simp
    ultimately show ?thesis by blast
  qed
qed

lemma to_base_2_bits: "list_all is_bit (to_base 2 n)"
proof -
  have "is_bit c" if "c \<in> set (to_base 2 n)" for c
  proof -
    from to_base_chars[OF _ that] obtain d where "d < 2" "c = digit_char d" by auto
    then have "d = 0 \<or> d = 1" by arith
    with \<open>c = digit_char d\<close> show ?thesis by (auto simp: is_bit_def digit_char_def)
  qed
  then show ?thesis by (simp add: list_all_iff)
qed

lemma to_base_2_hd: "0 < n \<Longrightarrow> hd (to_base 2 n) = CHR ''1''"
proof (induction "2::nat" n rule: to_base.induct)
  case (1 n)
  show ?case
  proof (cases "n < 2")
    case True
    with "1.prems" have "n = 1" by simp
    then show ?thesis by (simp add: to_base_small digit_char_def)
  next
    case False
    then have "hd (to_base 2 (n div 2)) = CHR ''1''" using "1.hyps" by simp
    with False show ?thesis by (simp add: to_base_step to_base_nonempty)
  qed
qed

lemma to_base_2_length:
  "2 ^ k \<le> n \<Longrightarrow> n < 2 ^ Suc k \<Longrightarrow> length (to_base 2 n) = Suc k"
proof (induction k arbitrary: n)
  case 0
  then show ?case by (simp add: to_base_small)
next
  case (Suc k)
  from Suc.prems have a: "2 * 2 ^ k \<le> n" "n < 2 * (2 * 2 ^ k)" by simp_all
  then have "2 ^ k \<le> n div 2" "n div 2 < 2 * 2 ^ k" by arith+
  then have "length (to_base 2 (n div 2)) = Suc k" by (intro Suc.IH) simp_all
  moreover have "(1::nat) \<le> 2 ^ k" by simp
  with a have "2 \<le> n" by linarith
  ultimately show ?case by (simp add: to_base_step)
qed

lemma enumerate_invert:
  "map (\<lambda>(i, c). if i > 0 then f c else c) (enumerate (Suc n) xs) = map f xs"
  by (induction xs arbitrary: n) simp_all

lemma bits_value_bound:
  assumes "list_all is_bit xs"
  shows "\<exists>v < 2 ^ length xs. digits_value 2 0 xs = Inr v"
proof -
  from bits_value[OF assms] obtain v w where "v + w + 1 = 2 ^ length xs"
    "\<forall>acc. digits_value 2 acc xs = Inr (acc * 2 ^ length xs + v)" by blast
  then have "v < 2 ^ length xs" "digits_value 2 0 xs = Inr v" by simp_all
  then show ?thesis by blast
qed

lemma str_add_eq_Inr:
  "str_add a b = Inr s \<longleftrightarrow> (\<exists>x y. a = Some x \<and> b = Some y \<and> s = x @ y)"
  by (auto simp: str_add_def split: option.splits)

lemma py_index_eq_Inr: "py_index s k = Inr c \<longleftrightarrow> k < length s \<and> c = s ! k"
  by (auto simp: py_index_def)

lemma getITypeImmediate_range:
  assumes "getITypeImmediate w = Inr im"
  shows "\<exists>n<65536. im = str_py (int n)"
proof -
  from assms obtain b45 x6 x7 n where b45: "two_nibbles w 4 5 = Inr b45"
    and x6: "map_of hexToBinLookup (w ! 6) = Some x6"
    and x7: "map_of hexToBinLookup (w ! 7) = Some x7"
    and n: "int_py 2 (b45 @ x6 @ x7) = Inr n" and im: "im = str_py n"
    unfolding getITypeImmediate_def ebind_eq_Inr py_index_eq_Inr str_add_eq_Inr
    by auto
  let ?bs = "b45 @ x6 @ x7"
  have bits: "list_all is_bit ?bs" and len: "length ?bs = 16"
    using two_nibbles_bits[OF b45] hexToBinLookup_bits[OF x6] hexToBinLookup_bits[OF x7]
    by simp_all
  then have ne: "?bs \<noteq> []" by auto
  from bits_value_bound[OF bits] len obtain v where v: "v < 65536" "digits_value 2 0 ?bs = Inr v"
    by auto
  with n int_py_bits[OF bits ne, of 2] have "n = int v" by (simp add: ebind_def)
  with im v(1) show ?thesis by blast
qed

lemma twosCM_odd:
  fixes r :: nat
  assumes lo: "32768 \<le> r" and hi: "r < 65536" and odd: "odd r"
  shows "ebind (twosCM (str_py (int r))) getSignedInteger = Inr (str_py (int r - 65536))"
proof -
  define hs where "hs = to_base 2 (r div 2)"
  have r2: "2 \<le> r" using lo by simp
  have bs: "to_base 2 r = hs @ ''1''"
    using odd r2 by (simp add: to_base_step hs_def digit_char_def odd_iff_mod_2_eq_one)
  have "2 ^ 14 \<le> r div 2" "r div 2 < 2 ^ Suc 14" using lo hi by simp_all
  then have "length hs = Suc 14" unfolding hs_def by (rule to_base_2_length)
  moreover have "hd hs = CHR ''1''" unfolding hs_def using lo by (intro to_base_2_hd) simp
  ultimately obtain mid where hs: "hs = CHR ''1'' # mid" and lmid: "length mid = 14"
    by (cases hs) auto
  have "list_all is_bit hs" unfolding hs_def by (rule to_base_2_bits)
  with hs have bmid: "list_all is_bit mid" by simp
  from bits_value[OF bmid] lmid obtain v w where vw: "v + w + 1 = 2 ^ 14"
    and v: "\<And>acc. digits_value 2 acc mid = Inr (acc * 2 ^ 14 + v)"
    and w: "\<And>acc. digits_value 2 acc (map invert_bit mid) = Inr (acc * 2 ^ 14 + w)"
    by auto
  \<comment> \<open>the value of \<open>r\<close> in terms of the middle bits\<close>
  have "digits_value 2 0 (to_base 2 r) = Inr r" by (rule digits_value_to_base) simp_all
  moreover have "digits_value 2 0 (to_base 2 r) = Inr ((2 ^ 14 + v) * 2 + 1)"
    unfolding bs hs using v[of 1]
    by (simp add: digits_value_append ebind_def digit_value_def del: append.simps)
  ultimately have r: "r = (2 ^ 14 + v) * 2 + 1" by simp
  \<comment> \<open>what \<open>twosCM\<close> returns\<close>
  define ls where "ls = CHR ''1'' # map invert_bit mid"
  have bls: "list_all is_bit ls"
    using bmid by (simp add: ls_def is_bit_def list_all_iff is_bit_invert[unfolded is_bit_def])
  have "ls \<noteq> []" "hd ls = CHR ''1''" by (simp_all add: ls_def)
  with bits_reprint[of 10 ls] bls obtain t where t: "t > 0" "digits_value 10 0 ls = Inr t"
    "to_base 10 t = ls" by auto
  have strip: "strip_chars (\<lambda>c. c \<in> set ''0b'') (bin_py (int r mod 65536)) = to_base 2 r"
  proof -
    have "int r mod 65536 = int r" using hi by simp
    then have "bin_py (int r mod 65536) = ''0b'' @ to_base 2 r" by (simp add: bin_py_def)
    moreover have "dropWhile (\<lambda>c. c \<in> set ''0b'') (''0b'' @ to_base 2 r) = to_base 2 r"
      unfolding bs hs by simp
    moreover have "dropWhile (\<lambda>c. c \<in> set ''0b'') (rev (to_base 2 r)) = rev (to_base 2 r)"
      unfolding bs by simp
    ultimately show ?thesis by (simp add: strip_chars_def)
  qed
  have listed: "map (\<lambda>(i, c). if i > 0 then invert_bit c else c) (enumerate 0 (to_base 2 r))
      = ls @ ''0''"
    unfolding bs hs ls_def by (simp add: enumerate_invert invert_bit_def)
  have "list_all is_bit (ls @ ''0'')" using bls by (simp add: is_bit_def)
  then have "int_py 10 (ls @ ''0'') = ebind (digits_value 10 0 (ls @ ''0'')) (\<lambda>n. Inr (int n))"
    by (intro int_py_bits) simp_all
  also have "\<dots> = Inr (int (t * 10))"
    using t(2) by (simp add: digits_value_append ebind_def digit_value_def)
  finally have parse: "int_py 10 (ls @ ''0'') = Inr (int (t * 10))" .
  have "to_base 10 (t * 10 + 1) = to_base 10 ((t * 10 + 1) div 10) @ [digit_char ((t * 10 + 1) mod 10)]"
    using t(1) by (intro to_base_step) simp_all
  moreover have "(t * 10 + 1) div 10 = t" "(t * 10 + 1) mod 10 = 1" by arith+
  ultimately have "to_base 10 (t * 10 + 1) = to_base 10 t @ [digit_char 1]" by simp
  then have print: "to_base 10 (t * 10 + 1) = ls @ ''1''"
    using t(3) by (simp add: digit_char_def)
  have "nat (int t * 10 + 1) = t * 10 + 1" by (simp add: nat_add_distrib nat_mult_distrib)
  then have "str_py (int (t * 10) + 1) = ls @ ''1''"
    using print by (simp add: str_py_def)
  with strip listed parse have tcm: "twosCM (str_py (int r)) = Inr (ls @ ''1'')"
    by (simp add: twosCM_def int_py_str_py ebind_def)
  \<comment> \<open>what \<open>getSignedInteger\<close> makes of it\<close>
  let ?tl = "map invert_bit mid @ ''1''"
  have "list_all is_bit ?tl"
    using bmid by (simp add: is_bit_def list_all_iff is_bit_invert[unfolded is_bit_def])
  then have "int_py 2 ?tl = ebind (digits_value 2 0 ?tl) (\<lambda>n. Inr (int n))"
    by (intro int_py_bits) simp_all
  also have "\<dots> = Inr (int (w * 2 + 1))"
    using w[of 0] by (simp add: digits_value_append ebind_def digit_value_def)
  finally have tl: "int_py 2 ?tl = Inr (int (w * 2 + 1))" .
  have neg: "int (w * 2 + 1) * - 1 = int r - 65536" using r vw by simp
  have "getSignedInteger (ls @ ''1'') = Inr (str_py (int (w * 2 + 1) * - 1))"
    using tl by (simp add: getSignedInteger_def py_index_def ls_def ebind_def)
  then have "getSignedInteger (ls @ ''1'') = Inr (str_py (int r - 65536))"
    unfolding neg .
  with tcm show ?thesis by (simp add: ebind_def)
qed

section \<open>Field getters on well-formed words\<close>

lemma slice_bits:
  assumes "length bs = 8" "list_all is_bit bs"
  shows "length (take 5 bs) = 5 \<and> list_all is_bit (take 5 bs)"
    and "length (take 5 (drop 2 bs)) = 5 \<and> list_all is_bit (take 5 (drop 2 bs))"
    and "length (drop 3 bs) = 5 \<and> list_all is_bit (drop 3 bs)"
  using assms by (auto simp: list_all_iff dest: in_set_takeD in_set_dropD)

lemma register_getter_outcome:
  assumes "\<And>bs. length bs = 8 \<Longrightarrow> list_all is_bit bs \<Longrightarrow>
             length (sl bs) = 5 \<and> list_all is_bit (sl bs)"
  shows "(\<exists>r. ebind (two_nibbles w a b) (\<lambda>bs. register_of (sl bs) w i) = Inr r \<and>
              r \<in> snd ` set registerDictionary) \<or>
         ebind (two_nibbles w a b) (\<lambda>bs. register_of (sl bs) w i) = Inl IndexError \<or>
         ebind (two_nibbles w a b) (\<lambda>bs. register_of (sl bs) w i) = Inl TypeError"
proof (cases "two_nibbles w a b")
  case (Inl e)
  then show ?thesis using two_nibbles_error[OF Inl] by (auto simp: ebind_def)
next
  case (Inr bs)
  from two_nibbles_bits[OF Inr] assms have "length (sl bs) = 5" "list_all is_bit (sl bs)"
    by simp_all
  from register_of_bits[OF this, of w i] Inr show ?thesis by (simp add: ebind_def)
qed

lemma getRSRegister_outcome:
  "(\<exists>r. getRSRegister w i = Inr r \<and> r \<in> snd ` set registerDictionary) \<or>
   getRSRegister w i = Inl IndexError \<or> getRSRegister w i = Inl TypeError"
  unfolding getRSRegister_def
  by (rule register_getter_outcome) (simp add: slice_bits)

lemma getRTRegister_outcome:
  "(\<exists>r. getRTRegister w i = Inr r \<and> r \<in> snd ` set registerDictionary) \<or>
   getRTRegister w i = Inl IndexError \<or> getRTRegister w i = Inl TypeError"
  unfolding getRTRegister_def
  by (rule register_getter_outcome) (simp add: slice_bits)

lemma getRTypeRDRegister_outcome:
  "(\<exists>r. getRTypeRDRegister w i = Inr r \<and> r \<in> snd ` set registerDictionary) \<or>
   getRTypeRDRegister w i = Inl IndexError \<or> getRTypeRDRegister w i = Inl TypeError"
  unfolding getRTypeRDRegister_def
  by (rule register_getter_outcome) (simp add: slice_bits)

lemma hex_word_nth: "hex_word w \<Longrightarrow> k < 8 \<Longrightarrow> k < length w \<and> lower_hex (w ! k)"
  by (simp add: hex_word_def list_all_length)

lemma two_nibbles_hex_word:
  "hex_word w \<Longrightarrow> a < 8 \<Longrightarrow> b < 8 \<Longrightarrow> \<exists>bs. two_nibbles w a b = Inr bs"
  using hex_word_nth[of w a] hex_word_nth[of w b] by (simp add: two_nibbles_hex)

lemma hex_word_registers:
  assumes "hex_word w"
  shows "\<exists>rs rt rd. getRSRegister w i = Inr rs \<and> getRTRegister w i = Inr rt \<and>
           getRTypeRDRegister w i = Inr rd \<and>
           rs \<in> snd ` set registerDictionary \<and> rt \<in> snd ` set registerDictionary \<and>
           rd \<in> snd ` set registerDictionary"
proof -
  from two_nibbles_hex_word[OF assms, of 1 2] two_nibbles_hex_word[OF assms, of 2 3]
    two_nibbles_hex_word[OF assms, of 4 5]
  obtain b12 b23 b45 where
    "two_nibbles w 1 2 = Inr b12" "two_nibbles w 2 3 = Inr b23" "two_nibbles w 4 5 = Inr b45"
    by auto
  then have "\<not> getRSRegister w i = Inl IndexError" "\<not> getRSRegister w i = Inl TypeError"
    "\<not> getRTRegister w i = Inl IndexError" "\<not> getRTRegister w i = Inl TypeError"
    "\<not> getRTypeRDRegister w i = Inl IndexError" "\<not> getRTypeRDRegister w i = Inl TypeError"
    by (simp_all add: getRSRegister_def getRTRegister_def getRTypeRDRegister_def ebind_def
          register_of_def errorOut_def split: option.splits)
  with getRSRegister_outcome[of w i] getRTRegister_outcome[of w i]
    getRTypeRDRegister_outcome[of w i]
  show ?thesis by blast
qed

lemma getITypeImmediate_hex_word:
  assumes "hex_word w"
  shows "\<exists>n<65536. getITypeImmediate w = Inr (str_py (int n))"
proof -
  from two_nibbles_hex_word[OF assms, of 4 5] obtain b45 where b45: "two_nibbles w 4 5 = Inr b45"
    by auto
  from hex_word_nth[OF assms, of 6] hexToBinLookup_lower_hex[of "w ! 6"]
  obtain x6 where x6: "6 < length w" "map_of hexToBinLookup (w ! 6) = Some x6" by auto
  from hex_word_nth[OF assms, of 7] hexToBinLookup_lower_hex[of "w ! 7"]
  obtain x7 where x7: "7 < length w" "map_of hexToBinLookup (w ! 7) = Some x7" by auto
  let ?bs = "b45 @ x6 @ x7"
  have bits: "list_all is_bit ?bs" and len: "length ?bs = 16"
    using two_nibbles_bits[OF b45] hexToBinLookup_bits[OF x6(2)] hexToBinLookup_bits[OF x7(2)]
    by simp_all
  then have ne: "?bs \<noteq> []" by auto
  from bits_value_bound[OF bits] len obtain v where v: "v < 65536" "digits_value 2 0 ?bs = Inr v"
    by auto
  have "getITypeImmediate w = Inr (str_py (int v))"
    using b45 x6 x7 v(2) int_py_bits[OF bits ne, of 2]
    by (simp add: getITypeImmediate_def ebind_def py_index_def str_add_def)
  with v(1) show ?thesis by blast
qed

lemma remove_0x_id: "CHR ''x'' \<notin> set s \<Longrightarrow> remove_0x s = s"
  by (induction s rule: remove_0x.induct) auto

lemma to_base_16_no_x: "CHR ''x'' \<notin> set (to_base 16 n)"
proof
  assume "CHR ''x'' \<in> set (to_base 16 n)"
  then obtain d where "d < 16" "CHR ''x'' = digit_char d"
    using to_base_chars[of 16 "CHR ''x''" n] by auto
  then show False using digit_char_plain[of d] by simp
qed

lemma remove_0x_hex_py: "0 \<le> n \<Longrightarrow> remove_0x (hex_py n) = to_base 16 (nat n)"
  by (simp add: hex_py_def remove_0x_id to_base_16_no_x)

lemma iOpcodes_branch:
  "map_of iOpcodes opc = Some func \<Longrightarrow> func = ''beq'' \<or> func = ''bne'' \<Longrightarrow>
   opc = ''0x4'' \<or> opc = ''0x5''"
  by (auto simp: iOpcodes_def split: if_splits)

lemma iOpcodes_not_zero: "map_of iOpcodes ''0x0'' = None"
  by (simp add: iOpcodes_def)

lemma iOpcodes_beq_bne:
  "map_of iOpcodes ''0x4'' = Some ''beq''" "map_of iOpcodes ''0x5'' = Some ''bne''"
  by (simp_all add: iOpcodes_def)

text \<open>The loop body on a \<open>beq\<close>/\<open>bne\<close> word whose fields were read.\<close>

lemma main_step_branch:
  assumes "getOpCode w = Inr opc" "map_of iOpcodes opc = Some func"
    and "func = ''beq'' \<or> func = ''bne''"
    and "getRSRegister w i = Inr rs" "getRTRegister w i = Inr rt"
    and "getITypeImmediate w = Inr im"
  shows "main_step i w s = branch_step i func rs rt im s"
proof -
  from assms(1,2) have "opc \<noteq> ''0x0''" using iOpcodes_not_zero by auto
  moreover from assms(3) have "\<not> (func = ''sw'' \<or> func = ''lw'')" by auto
  ultimately show ?thesis using assms by (simp add: main_step_def ebind_def)
qed

lemma register_of_index: "register_of k w i = Inr r \<Longrightarrow> register_of k w j = Inr r"
  by (auto simp: register_of_def errorOut_def split: option.splits)

lemma getRTypeFunction_index:
  "getRTypeFunction w i = Inr f \<Longrightarrow> getRTypeFunction w j = Inr f"
  by (auto simp: getRTypeFunction_def ebind_eq_Inr Let_def errorOut_def split: option.splits)

lemma getRSRegister_index: "getRSRegister w i = Inr r \<Longrightarrow> getRSRegister w j = Inr r"
  by (auto simp: getRSRegister_def ebind_eq_Inr dest: register_of_index)

lemma getRTRegister_index: "getRTRegister w i = Inr r \<Longrightarrow> getRTRegister w j = Inr r"
  by (auto simp: getRTRegister_def ebind_eq_Inr dest: register_of_index)

lemma getRTypeRDRegister_index:
  "getRTypeRDRegister w i = Inr r \<Longrightarrow> getRTypeRDRegister w j = Inr r"
  by (auto simp: getRTypeRDRegister_def ebind_eq_Inr dest: register_of_index)

lemma fmt_hd: "hd (fmt4 a b c d) = CHR 0x09" "hd (fmt_mem a b c d) = CHR 0x09"
  by (simp_all add: fmt4_def fmt_mem_def)

lemma main_step_nonbranch:
  assumes opc: "getOpCode w = Inr opc" "opc \<noteq> ''0x4''" "opc \<noteq> ''0x5''"
    and step: "main_step i w s = Inr s'"
  shows "\<exists>out. s' = s\<lparr>listQ := listQ s @ out\<rparr> \<and>
           (out = [] \<or> (\<exists>msg. out = [msg] \<and> hd msg = CHR 0x09)) \<and>
           (\<forall>j t. main_step j w t = Inr (t\<lparr>listQ := listQ t @ out\<rparr>))"
proof (cases "opc = ''0x0''")
  case True
  with step opc(1) obtain func rd rs rt sh where g:
    "getRTypeFunction w i = Inr func" "getRTypeRDRegister w i = Inr rd"
    "getRSRegister w i = Inr rs" "getRTRegister w i = Inr rt" "getRTypeShamt w = Inr sh"
    and s': "s' = append_line (if func = ''srl'' \<or> func = ''sll'' then fmt4 func rd rt sh
                               else fmt4 func rd rs rt) s"
    by (auto simp: main_step_def ebind_eq_Inr split: if_splits)
  let ?msg = "if func = ''srl'' \<or> func = ''sll'' then fmt4 func rd rt sh else fmt4 func rd rs rt"
  have "main_step j w t = Inr (t\<lparr>listQ := listQ t @ [?msg]\<rparr>)" for j t
    using True opc(1) g(5) getRTypeFunction_index[OF g(1), of j]
      getRTypeRDRegister_index[OF g(2), of j] getRSRegister_index[OF g(3), of j]
      getRTRegister_index[OF g(4), of j]
    by (simp add: main_step_def ebind_def append_line_def)
  moreover have "hd ?msg = CHR 0x09" by (simp add: fmt_hd)
  moreover have "s' = s\<lparr>listQ := listQ s @ [?msg]\<rparr>" using s' by (simp add: append_line_def)
  ultimately show ?thesis by blast
next
  case False
  show ?thesis
  proof (cases "map_of iOpcodes opc")
    case None
    with False opc(1) have "main_step j w t = Inr t" for j t
      by (simp add: main_step_def ebind_def)
    with step have "s' = s\<lparr>listQ := listQ s @ []\<rparr>"
      "\<forall>j t. main_step j w t = Inr (t\<lparr>listQ := listQ t @ []\<rparr>)" by simp_all
    then show ?thesis by blast
  next
    case (Some func)
    with opc(2,3) have nb: "\<not> (func = ''beq'' \<or> func = ''bne'')"
      using iOpcodes_branch by blast
    define m where "m rs rt im = (if func = ''sw'' \<or> func = ''lw'' then fmt_mem func rt im rs
                                  else fmt4 func rt rs im)" for rs rt im
    have eq: "main_step j w t =
        ebind (getRSRegister w j) (\<lambda>rs. ebind (getRTRegister w j) (\<lambda>rt.
        ebind (getITypeImmediate w) (\<lambda>im. Inr (append_line (m rs rt im) t))))" for j t
      using False Some nb opc(1)
      by (simp add: main_step_def ebind_def m_def split: sum.splits)
    from step obtain rs rt im where g:
      "getRSRegister w i = Inr rs" "getRTRegister w i = Inr rt" "getITypeImmediate w = Inr im"
      and s': "s' = append_line (m rs rt im) s"
      unfolding eq ebind_eq_Inr by auto
    have "main_step j w t = Inr (t\<lparr>listQ := listQ t @ [m rs rt im]\<rparr>)" for j t
      using g(3) getRSRegister_index[OF g(1), of j] getRTRegister_index[OF g(2), of j]
      by (simp add: eq ebind_def append_line_def)
    moreover have "hd (m rs rt im) = CHR 0x09" by (simp add: m_def fmt_hd)
    moreover have "s' = s\<lparr>listQ := listQ s @ [m rs rt im]\<rparr>"
      using s' by (simp add: append_line_def)
    ultimately show ?thesis by blast
  qed
qed

section \<open>Opcodes outside the two tables\<close>

lemma main_step_unmapped_opcode:
  assumes "getOpCode w = Inr opc" "opc \<noteq> ''0x0''" "map_of iOpcodes opc = None"
  shows "main_step i w s = Inr s"
  using assms by (simp add: main_step_def ebind_def)

text \<open>
  C1. The specification: a word whose primary opcode is nonzero and not one of the
  17 I-type opcodes makes decoding fail with an UnknownOpcode error that aborts the whole
  pass, and no output is persisted. The \<open>errorOut\<close> call for that case (line 270)
  stands inside the \<open>elif\<close> arm that is entered only when the opcode is a key of
  \<open>iOpcodes\<close>, so it is never reached: the word \<open>fc000000\<close> (opcode \<open>0x3f\<close>)
  is passed over in silence, the pass goes on with the next word, and the lines decoded
  from the other words are written out.
\<close>

theorem unknown_opcode_is_skipped:
  "main [''fc000000''] = Inr [] \<and>
   main [''fc000000'', ''014b4820''] = Inr [CHR 0x09 # ''add, $t1, $t2, $t3'']"
  by (simp add: main_eval field_eval prim_eval cong: eval_cong)

section \<open>The signed value of a branch immediate\<close>

text \<open>
  C2. The specification: a raw immediate \<open>r \<ge> 32768\<close> converts to
  \<open>r - 65536\<close>. \<open>twosCM\<close> removes the \<open>0b\<close> prefix with \<open>strip('0b')\<close>,
  which also removes every trailing \<open>0\<close> of the binary digits, so an even immediate
  loses its low zero bits before the bits are complemented: \<open>0xFFFE\<close> (65534, that
  is \<open>-2\<close>) converts to \<open>-1\<close>, and \<open>0x8000\<close> leaves a one-character string on
  which \<open>getSignedInteger\<close> raises ValueError. The documented example \<open>0xFFF9\<close>
  is odd and converts to \<open>-7\<close>.
\<close>

theorem signed_conversion_drops_trailing_zero_bits:
  "ebind (twosCM ''65534'') getSignedInteger = Inr ''-1'' \<and>
   ebind (twosCM ''32768'') getSignedInteger = Inl ValueError \<and>
   ebind (twosCM ''65529'') getSignedInteger = Inr ''-7''"
  by (simp add: main_eval prim_eval cong: eval_cong)

section \<open>Upper-case hexadecimal digits\<close>

text \<open>
  C7. The specification: the upper-case spelling of a word decodes to the same
  lines as its lower-case spelling. \<open>getOpCode\<close> and \<open>getRTypeFunction\<close> read
  their digits with \<open>int(_, 16)\<close>, which accepts both cases, but the register, shamt
  and immediate getters go through \<open>hexToBinLookup\<close>, whose keys are lower case
  only: for \<open>B\<close> the lookup returns \<open>None\<close> and the string concatenation raises
  TypeError. \<open>014b4820\<close> decodes to \<open>add, $t1, $t2, $t3\<close>; \<open>014B4820\<close>
  stops the script.
\<close>

theorem uppercase_word_raises_type_error:
  "main [''014b4820''] = Inr [CHR 0x09 # ''add, $t1, $t2, $t3''] \<and>
   main [''014B4820''] = Inl TypeError"
  by (simp add: main_eval field_eval prim_eval cong: eval_cong)

section \<open>Register resolution\<close>

text \<open>
  C8. Register resolution is total: every 5-bit pattern is a key of
  \<open>registerDictionary\<close> (32 distinct keys), and the defensive \<open>errorOut\<close> branch
  of the three register getters is unreachable: whatever the input string, a getter
  either returns a register name or stops earlier, in the nibble lookup (IndexError on
  a short line, TypeError on a character that is not a lower-case hex digit), never
  through \<open>errorOut\<close>. On a word of eight lower-case hex digits all three getters
  return one of the 32 names.
\<close>

theorem register_resolution_total:
  "(length key = 5 \<and> list_all is_bit key \<longrightarrow> (\<exists>r. map_of registerDictionary key = Some r)) \<and>
   getRSRegister w i \<noteq> Inl (ErrorOut w' i') \<and>
   getRTRegister w i \<noteq> Inl (ErrorOut w' i') \<and>
   getRTypeRDRegister w i \<noteq> Inl (ErrorOut w' i') \<and>
   (hex_word w \<longrightarrow>
      (\<exists>rs rt rd. getRSRegister w i = Inr rs \<and> getRTRegister w i = Inr rt \<and>
         getRTypeRDRegister w i = Inr rd \<and>
         rs \<in> snd ` set registerDictionary \<and> rt \<in> snd ` set registerDictionary \<and>
         rd \<in> snd ` set registerDictionary)) \<and>
   length registerDictionary = 32 \<and> distinct (map fst registerDictionary)"
proof -
  have "getRSRegister w i \<noteq> Inl (ErrorOut w' i')"
    using getRSRegister_outcome[of w i] by auto
  moreover have "getRTRegister w i \<noteq> Inl (ErrorOut w' i')"
    using getRTRegister_outcome[of w i] by auto
  moreover have "getRTypeRDRegister w i \<noteq> Inl (ErrorOut w' i')"
    using getRTypeRDRegister_outcome[of w i] by auto
  moreover have "length registerDictionary = 32" "distinct (map fst registerDictionary)"
    by (simp_all add: registerDictionary_def)
  ultimately show ?thesis
    using registerDictionary_total[of key] hex_word_registers[of w i] by blast
qed

text \<open>The pattern \<open>01010\<close> and the word \<open>014b4820\<close> satisfy the hypotheses.\<close>

theorem register_resolution_total_witness:
  "length ''01010'' = 5 \<and> list_all is_bit ''01010'' \<and>
   (\<exists>r. map_of registerDictionary ''01010'' = Some r) \<and>
   hex_word ''014b4820'' \<and>
   (\<exists>rs rt rd. getRSRegister ''014b4820'' 0 = Inr rs \<and> getRTRegister ''014b4820'' 0 = Inr rt \<and>
      getRTypeRDRegister ''014b4820'' 0 = Inr rd \<and>
      rs \<in> snd ` set registerDictionary \<and> rt \<in> snd ` set registerDictionary \<and>
      rd \<in> snd ` set registerDictionary)"
proof -
  have k: "length ''01010'' = 5 \<and> list_all is_bit ''01010''" by (simp add: is_bit_def)
  have h: "hex_word ''014b4820''" by (simp add: hex_word_def lower_hex_def)
  from register_resolution_total[of "''01010''" "''014b4820''" 0] k h show ?thesis by blast
qed

section \<open>The pending forward label\<close>

lemma getITypeImmediate_outcome:
  "(\<exists>im. getITypeImmediate w = Inr im) \<or> getITypeImmediate w = Inl IndexError \<or>
   getITypeImmediate w = Inl TypeError"
proof (cases "two_nibbles w 4 5")
  case (Inl e)
  with two_nibbles_error[OF Inl] show ?thesis by (auto simp: getITypeImmediate_def ebind_def)
next
  case (Inr b45)
  show ?thesis
  proof (cases "6 < length w \<and> 7 < length w")
    case False
    with Inr show ?thesis
      by (auto simp: getITypeImmediate_def ebind_def py_index_def str_add_def
               split: option.splits)
  next
    case True
    show ?thesis
    proof (cases "map_of hexToBinLookup (w ! 6)")
      case None
      with Inr True show ?thesis
        by (simp add: getITypeImmediate_def ebind_def py_index_def str_add_def)
    next
      case x6: (Some x6)
      show ?thesis
      proof (cases "map_of hexToBinLookup (w ! 7)")
        case None
        with Inr True x6 show ?thesis
          by (simp add: getITypeImmediate_def ebind_def py_index_def str_add_def)
      next
        case x7: (Some x7)
        let ?bs = "b45 @ x6 @ x7"
        have bits: "list_all is_bit ?bs" and len: "length ?bs = 16"
          using two_nibbles_bits[OF Inr] hexToBinLookup_bits[OF x6] hexToBinLookup_bits[OF x7]
          by simp_all
        then have ne: "?bs \<noteq> []" by auto
        from bits_value_bound[OF bits] obtain v where "digits_value 2 0 ?bs = Inr v" by auto
        with Inr True x6 x7 int_py_bits[OF bits ne, of 2] show ?thesis
          by (simp add: getITypeImmediate_def ebind_def py_index_def str_add_def)
      qed
    qed
  qed
qed

lemma main_step_discharge:
  assumes "getOpCode w = Inr ''0x4'' \<or> getOpCode w = Inr ''0x5''" "int i = checkIndex s"
  shows "main_step i w s = Inr (s\<lparr>listQ := listQ s @ [''Addr_'' @ tempAddress s @ '':'']\<rparr>) \<or>
         main_step i w s = Inl IndexError \<or> main_step i w s = Inl TypeError"
proof -
  from assms(1) obtain opc func where opc: "getOpCode w = Inr opc"
    "map_of iOpcodes opc = Some func" "func = ''beq'' \<or> func = ''bne''"
    using iOpcodes_beq_bne by auto
  then have nz: "opc \<noteq> ''0x0''" using iOpcodes_not_zero by auto
  from opc(3) have nm: "\<not> (func = ''sw'' \<or> func = ''lw'')" by auto
  have eq: "main_step i w s =
      ebind (getRSRegister w i) (\<lambda>rs. ebind (getRTRegister w i) (\<lambda>rt.
      ebind (getITypeImmediate w) (\<lambda>im.
        Inr (s\<lparr>listQ := listQ s @ [''Addr_'' @ tempAddress s @ '':'']\<rparr>))))"
    using opc nz nm assms(2)
    by (simp add: main_step_def branch_step_def ebind_def append_line_def fmt_label_def
             split: sum.splits)
  show ?thesis
    using getRSRegister_outcome[of w i] getRTRegister_outcome[of w i]
      getITypeImmediate_outcome[of w]
    unfolding eq by (auto simp: ebind_def)
qed

lemma main_step_discharge_hex_word:
  assumes "hex_word w" "getOpCode w = Inr ''0x4'' \<or> getOpCode w = Inr ''0x5''"
    "int i = checkIndex s"
  shows "main_step i w s = Inr (s\<lparr>listQ := listQ s @ [''Addr_'' @ tempAddress s @ '':'']\<rparr>)"
proof -
  from assms(2) obtain opc func where opc: "getOpCode w = Inr opc"
    "map_of iOpcodes opc = Some func" "func = ''beq'' \<or> func = ''bne''"
    using iOpcodes_beq_bne by auto
  from hex_word_registers[OF assms(1), of i] obtain rs rt where
    regs: "getRSRegister w i = Inr rs" "getRTRegister w i = Inr rt" by blast
  from getITypeImmediate_hex_word[OF assms(1)] obtain im where
    im: "getITypeImmediate w = Inr im" by blast
  have "main_step i w s = branch_step i func rs rt im s"
    using opc regs im by (rule main_step_branch)
  with assms(3) show ?thesis
    by (simp add: branch_step_def append_line_def fmt_label_def)
qed

text \<open>
  C10. \<open>main\<close> starts with \<open>checkIndex = 0\<close> and an empty
  \<open>tempAddress\<close>. If the first word (slot 0) is a \<open>beq\<close> or \<open>bne\<close>, the
  test \<open>index == checkIndex\<close> holds on this initial state: the only line produced
  for the word is the label \<open>Addr_:\<close> with an empty address, the branch itself is
  not resolved or rendered, and the pending label is left as it was. This is what
  happens on every word of eight lower-case hex digits; on any other string with such
  an opcode the only other outcome is an IndexError or TypeError of the field getters,
  which run before the test.
\<close>

theorem first_slot_branch_emits_empty_label:
  assumes "getOpCode w = Inr ''0x4'' \<or> getOpCode w = Inr ''0x5''"
  shows "(main_step 0 w \<lparr>listQ = [], tempAddress = [], checkIndex = 0\<rparr> =
            Inr \<lparr>listQ = [''Addr_:''], tempAddress = [], checkIndex = 0\<rparr> \<or>
          main_step 0 w \<lparr>listQ = [], tempAddress = [], checkIndex = 0\<rparr> = Inl IndexError \<or>
          main_step 0 w \<lparr>listQ = [], tempAddress = [], checkIndex = 0\<rparr> = Inl TypeError) \<and>
         (hex_word w \<longrightarrow>
            main (w # ws) =
              ebind (main_loop 1 ws \<lparr>listQ = [''Addr_:''], tempAddress = [], checkIndex = 0\<rparr>)
                (\<lambda>s. Inr (listQ s)))"
proof
  let ?s0 = "\<lparr>listQ = [], tempAddress = [], checkIndex = 0\<rparr>"
  from main_step_discharge[OF assms, of 0 ?s0]
  show "main_step 0 w ?s0 = Inr \<lparr>listQ = [''Addr_:''], tempAddress = [], checkIndex = 0\<rparr> \<or>
        main_step 0 w ?s0 = Inl IndexError \<or> main_step 0 w ?s0 = Inl TypeError"
    by simp
  show "hex_word w \<longrightarrow>
          main (w # ws) =
            ebind (main_loop 1 ws \<lparr>listQ = [''Addr_:''], tempAddress = [], checkIndex = 0\<rparr>)
              (\<lambda>s. Inr (listQ s))"
  proof
    assume "hex_word w"
    from main_step_discharge_hex_word[OF this assms, of 0 ?s0]
    show "main (w # ws) =
            ebind (main_loop 1 ws \<lparr>listQ = [''Addr_:''], tempAddress = [], checkIndex = 0\<rparr>)
              (\<lambda>s. Inr (listQ s))"
      by (simp add: main_def ebind_def)
  qed
qed

text \<open>The word \<open>10000001\<close> (\<open>beq $zero, $zero, 1\<close>) alone in the input.\<close>

theorem first_slot_branch_emits_empty_label_witness:
  "hex_word ''10000001'' \<and> getOpCode ''10000001'' = Inr ''0x4'' \<and>
   main [''10000001''] = Inr [''Addr_:'']"
proof -
  have h: "hex_word ''10000001''" by (simp add: hex_word_def lower_hex_def)
  have o: "getOpCode ''10000001'' = Inr ''0x4''"
    by (simp add: field_eval prim_eval cong: eval_cong)
  from first_slot_branch_emits_empty_label[of "''10000001''" "[]"] h o
  have "main [''10000001''] = Inr [''Addr_:'']" by (simp add: ebind_def)
  with h o show ?thesis by simp
qed

text \<open>
  C5. The pending label is discharged by \<open>beq\<close>/\<open>bne\<close> words only.
  A \<open>beq\<close>/\<open>bne\<close> word whose slot index equals \<open>checkIndex\<close> appends the
  standalone line \<open>Addr_<tempAddress>:\<close> and nothing else: its own instruction is not
  rendered and the state is otherwise unchanged (on a word of eight lower-case hex
  digits always; on any other string the field getters, which run first, may raise
  IndexError or TypeError instead). A word with any other opcode never
  does so, at the pending slot or elsewhere: it leaves \<open>checkIndex\<close> and
  \<open>tempAddress\<close> alone and appends nothing or one instruction line, which starts
  with a tab.
\<close>

theorem pending_label_discharged_only_by_branches:
  "((getOpCode w = Inr ''0x4'' \<or> getOpCode w = Inr ''0x5'') \<and> int i = checkIndex s \<longrightarrow>
      (main_step i w s = Inr (s\<lparr>listQ := listQ s @ [''Addr_'' @ tempAddress s @ '':'']\<rparr>) \<or>
       main_step i w s = Inl IndexError \<or> main_step i w s = Inl TypeError) \<and>
      (hex_word w \<longrightarrow>
         main_step i w s = Inr (s\<lparr>listQ := listQ s @ [''Addr_'' @ tempAddress s @ '':'']\<rparr>))) \<and>
   (getOpCode w = Inr opc \<and> opc \<noteq> ''0x4'' \<and> opc \<noteq> ''0x5'' \<and> main_step i w s = Inr s' \<longrightarrow>
      tempAddress s' = tempAddress s \<and> checkIndex s' = checkIndex s \<and>
      (listQ s' = listQ s \<or> (\<exists>msg. listQ s' = listQ s @ [msg] \<and> hd msg = CHR 0x09)))"
proof (rule conjI; rule impI)
  assume a: "(getOpCode w = Inr ''0x4'' \<or> getOpCode w = Inr ''0x5'') \<and> int i = checkIndex s"
  then have "main_step i w s = Inr (s\<lparr>listQ := listQ s @ [''Addr_'' @ tempAddress s @ '':'']\<rparr>) \<or>
       main_step i w s = Inl IndexError \<or> main_step i w s = Inl TypeError"
    using main_step_discharge[of w i s] by blast
  moreover have "hex_word w \<longrightarrow>
      main_step i w s = Inr (s\<lparr>listQ := listQ s @ [''Addr_'' @ tempAddress s @ '':'']\<rparr>)"
    using a main_step_discharge_hex_word[of w i s] by blast
  ultimately show "(main_step i w s =
        Inr (s\<lparr>listQ := listQ s @ [''Addr_'' @ tempAddress s @ '':'']\<rparr>) \<or>
       main_step i w s = Inl IndexError \<or> main_step i w s = Inl TypeError) \<and>
      (hex_word w \<longrightarrow>
         main_step i w s = Inr (s\<lparr>listQ := listQ s @ [''Addr_'' @ tempAddress s @ '':'']\<rparr>))"
    by (rule conjI)
next
  assume "getOpCode w = Inr opc \<and> opc \<noteq> ''0x4'' \<and> opc \<noteq> ''0x5'' \<and> main_step i w s = Inr s'"
  then obtain out where "s' = s\<lparr>listQ := listQ s @ out\<rparr>"
    "out = [] \<or> (\<exists>msg. out = [msg] \<and> hd msg = CHR 0x09)"
    using main_step_nonbranch[of w opc i s s'] by blast
  then show "tempAddress s' = tempAddress s \<and> checkIndex s' = checkIndex s \<and>
      (listQ s' = listQ s \<or> (\<exists>msg. listQ s' = listQ s @ [msg] \<and> hd msg = CHR 0x09))"
    by auto
qed

text \<open>Slot 2 with the label \<open>000c\<close> pending for slot 2: a \<open>beq\<close> word discharges
  it, the \<open>add\<close> word \<open>014b4820\<close> is rendered as usual.\<close>

theorem pending_label_discharged_only_by_branches_witness:
  "hex_word ''10000001'' \<and> getOpCode ''10000001'' = Inr ''0x4'' \<and>
   main_step 2 ''10000001'' \<lparr>listQ = [], tempAddress = ''000c'', checkIndex = 2\<rparr> =
     Inr \<lparr>listQ = [''Addr_000c:''], tempAddress = ''000c'', checkIndex = 2\<rparr> \<and>
   getOpCode ''014b4820'' = Inr ''0x0'' \<and>
   main_step 2 ''014b4820'' \<lparr>listQ = [], tempAddress = ''000c'', checkIndex = 2\<rparr> =
     Inr \<lparr>listQ = [CHR 0x09 # ''add, $t1, $t2, $t3''], tempAddress = ''000c'', checkIndex = 2\<rparr>"
proof -
  let ?s = "\<lparr>listQ = [], tempAddress = ''000c'', checkIndex = 2\<rparr>"
  have h: "hex_word ''10000001''" by (simp add: hex_word_def lower_hex_def)
  have o: "getOpCode ''10000001'' = Inr ''0x4''" "getOpCode ''014b4820'' = Inr ''0x0''"
    by (simp_all add: field_eval prim_eval cong: eval_cong)
  have r: "main_step 2 ''014b4820'' ?s =
      Inr \<lparr>listQ = [CHR 0x09 # ''add, $t1, $t2, $t3''], tempAddress = ''000c'', checkIndex = 2\<rparr>"
    by (simp add: main_eval field_eval prim_eval cong: eval_cong)
  from pending_label_discharged_only_by_branches[of "''10000001''" 2 ?s] h o(1)
  have "main_step 2 ''10000001'' ?s =
      Inr \<lparr>listQ = [''Addr_000c:''], tempAddress = ''000c'', checkIndex = 2\<rparr>" by simp
  with h o r show ?thesis by simp
qed

section \<open>Decoding the same word twice\<close>

text \<open>
  C9 does not hold as the specification states it: the same \<open>beq\<close> word \<open>10000001\<close> at slots 1 and 3 of one
  input gives two different lines, since the label of a branch is the absolute address
  computed from its slot.
\<close>

theorem branch_text_depends_on_slot:
  "main [''00000000'', ''10000001'', ''00000000'', ''10000001''] =
     Inr [CHR 0x09 # ''sll, $zero, $zero, 0'', CHR 0x09 # ''beq, $zero, $zero, Addr_000c'',
          CHR 0x09 # ''sll, $zero, $zero, 0'', CHR 0x09 # ''beq, $zero, $zero, Addr_0014'']"
  by (simp add: main_eval field_eval prim_eval cong: eval_cong)

text \<open>
  C9, amended. For every word that is not a \<open>beq\<close>/\<open>bne\<close>, decoding depends
  on the word alone: if the word decodes at slot \<open>i\<close> in state \<open>s\<close>, appending
  the lines \<open>out\<close>, then it decodes at every slot \<open>j\<close> in every state \<open>t\<close>
  and appends the same \<open>out\<close>, leaving the pending label alone. (The text produced
  for a \<open>beq\<close>/\<open>bne\<close> word depends on its slot index and on the pending label.)
\<close>

theorem nonbranch_text_depends_on_word_only:
  assumes "getOpCode w = Inr opc" "opc \<noteq> ''0x4''" "opc \<noteq> ''0x5''"
    and "main_step i w s = Inr s'"
  shows "\<exists>out. s' = s\<lparr>listQ := listQ s @ out\<rparr> \<and>
           main_step j w t = Inr (t\<lparr>listQ := listQ t @ out\<rparr>)"
  using main_step_nonbranch[OF assms] by blast

text \<open>The \<open>add\<close> word \<open>014b4820\<close> at slot 0 and at slot 7, in two different states.\<close>

theorem nonbranch_text_depends_on_word_only_witness:
  "getOpCode ''014b4820'' = Inr ''0x0'' \<and>
   main_step 0 ''014b4820'' \<lparr>listQ = [], tempAddress = [], checkIndex = 0\<rparr> =
     Inr \<lparr>listQ = [CHR 0x09 # ''add, $t1, $t2, $t3''], tempAddress = [], checkIndex = 0\<rparr> \<and>
   main_step 7 ''014b4820'' \<lparr>listQ = [''Addr_000c:''], tempAddress = ''0010'', checkIndex = 3\<rparr> =
     Inr \<lparr>listQ = [''Addr_000c:'', CHR 0x09 # ''add, $t1, $t2, $t3''], tempAddress = ''0010'',
          checkIndex = 3\<rparr>"
proof -
  let ?s = "\<lparr>listQ = [], tempAddress = [], checkIndex = 0\<rparr>"
  let ?t = "\<lparr>listQ = [''Addr_000c:''], tempAddress = ''0010'', checkIndex = 3\<rparr>"
  have o: "getOpCode ''014b4820'' = Inr ''0x0''"
    by (simp add: field_eval prim_eval cong: eval_cong)
  have r: "main_step 0 ''014b4820'' ?s =
      Inr \<lparr>listQ = [CHR 0x09 # ''add, $t1, $t2, $t3''], tempAddress = [], checkIndex = 0\<rparr>"
    by (simp add: main_eval field_eval prim_eval cong: eval_cong)
  from nonbranch_text_depends_on_word_only[OF o _ _ r, of 7 ?t]
  have "main_step 7 ''014b4820'' ?t =
      Inr \<lparr>listQ = [''Addr_000c:'', CHR 0x09 # ''add, $t1, $t2, $t3''], tempAddress = ''0010'',
           checkIndex = 3\<rparr>" by auto
  with o r show ?thesis by simp
qed

lemma hex_address: "0 \<le> n \<Longrightarrow> zfill 4 (remove_0x (hex_py n)) = zfill 4 (to_base 16 (nat n))"
  by (simp add: remove_0x_hex_py)

section \<open>Forward branches\<close>

text \<open>
  C4. A \<open>beq\<close>/\<open>bne\<close> word at slot \<open>i\<close> with raw immediate
  \<open>r < 32768\<close> that is not discharging the pending label (\<open>i \<noteq> checkIndex\<close>):
  the destination slot is \<open>i + r\<close>, the address text \<open>addr\<close> is the hexadecimal
  rendering of \<open>(i + r) * 4 + 4\<close> padded with zeros to four digits, the pending label
  becomes \<open>(i + r, addr)\<close> whatever it was before, and the branch's own line, which
  refers to \<open>Addr_addr\<close>, is appended. The hypotheses name what the field getters
  returned for the word.
\<close>

theorem forward_branch_overwrites_pending_label:
  assumes "getOpCode w = Inr opc" "map_of iOpcodes opc = Some func"
    and "func = ''beq'' \<or> func = ''bne''"
    and "getRSRegister w i = Inr rs" "getRTRegister w i = Inr rt"
    and "getITypeImmediate w = Inr im" "int_py 10 im = Inr r"
    and "r < 32768" "int i \<noteq> checkIndex s"
    and "addr = zfill 4 (to_base 16 (nat ((int i + r) * 4 + 4)))"
  shows "main_step i w s =
           Inr (s\<lparr>checkIndex := int i + r, tempAddress := addr,
                  listQ := listQ s @
                    [CHR 0x09 # func @ '', '' @ rt @ '', '' @ rs @ '', Addr_'' @ addr]\<rparr>)"
proof -
  from getITypeImmediate_range[OF assms(6)] obtain n where "im = str_py (int n)" by blast
  with assms(7) have r0: "0 \<le> r" by (simp add: int_py_str_py)
  then have "0 \<le> (int i + r) * 4 + 4" by simp
  then have a: "zfill 4 (remove_0x (hex_py ((int i + r) * 4 + 4))) = addr"
    unfolding assms(10) by (rule hex_address)
  have "main_step i w s = branch_step i func rs rt im s"
    using assms(1-6) by (rule main_step_branch)
  also have "\<dots> = Inr (s\<lparr>checkIndex := int i + r, tempAddress := addr,
      listQ := listQ s @ [CHR 0x09 # func @ '', '' @ rt @ '', '' @ rs @ '', Addr_'' @ addr]\<rparr>)"
    using assms(7-9) a by (simp add: branch_step_def ebind_def append_line_def fmt4_def)
  finally show ?thesis .
qed

text \<open>The word \<open>11090002\<close> (\<open>beq $t0, $t1, 2\<close>) at slot 5 while a label for
  slot 9 is pending: the pending label is replaced by the one for slot 7.\<close>

theorem forward_branch_overwrites_pending_label_witness:
  "getOpCode ''11090002'' = Inr ''0x4'' \<and> map_of iOpcodes ''0x4'' = Some ''beq'' \<and>
   getRSRegister ''11090002'' 5 = Inr ''$t0'' \<and> getRTRegister ''11090002'' 5 = Inr ''$t1'' \<and>
   getITypeImmediate ''11090002'' = Inr ''2'' \<and> int_py 10 ''2'' = Inr 2 \<and>
   main_step 5 ''11090002'' \<lparr>listQ = [], tempAddress = ''0010'', checkIndex = 9\<rparr> =
     Inr \<lparr>listQ = [CHR 0x09 # ''beq, $t1, $t0, Addr_0020''], tempAddress = ''0020'',
          checkIndex = 7\<rparr>"
proof -
  let ?s = "\<lparr>listQ = [], tempAddress = ''0010'', checkIndex = 9\<rparr>"
  have g: "getOpCode ''11090002'' = Inr ''0x4''" "map_of iOpcodes ''0x4'' = Some ''beq''"
    "getRSRegister ''11090002'' 5 = Inr ''$t0''" "getRTRegister ''11090002'' 5 = Inr ''$t1''"
    "getITypeImmediate ''11090002'' = Inr ''2''" "int_py 10 ''2'' = Inr 2"
    by (simp_all add: field_eval prim_eval cong: eval_cong)
  have a: "zfill 4 (to_base 16 (nat ((int 5 + 2) * 4 + 4))) = ''0020''"
    by (simp add: prim_eval)
  from forward_branch_overwrites_pending_label[OF g(1,2) _ g(3,4,5,6) _ _ a[symmetric], of ?s]
  have "main_step 5 ''11090002'' ?s =
     Inr \<lparr>listQ = [CHR 0x09 # ''beq, $t1, $t0, Addr_0020''], tempAddress = ''0020'',
          checkIndex = 7\<rparr>" by simp
  with g show ?thesis by simp
qed

section \<open>Backward branches\<close>

text \<open>
  C3 does not hold as the specification states it: a \<open>bne\<close> with raw immediate \<open>0xFFFF\<close> at slot 2, the
  slot for which the \<open>beq\<close> of slot 1 left a label pending, is not resolved as a
  backward branch. The test \<open>index == checkIndex\<close> comes first: the only line
  produced is the pending label; nothing is spliced at slot 1 and no line of the branch
  is appended.
\<close>

theorem backward_branch_at_pending_slot:
  "main [''00000000'', ''10000001'', ''1509ffff''] =
     Inr [CHR 0x09 # ''sll, $zero, $zero, 0'', CHR 0x09 # ''beq, $zero, $zero, Addr_000c'',
          ''Addr_000c:'']"
  by (simp add: main_eval field_eval prim_eval cong: eval_cong)

text \<open>
  C3, amended. A \<open>beq\<close>/\<open>bne\<close> word at slot \<open>i\<close> that is not discharging
  the pending label (\<open>i \<noteq> checkIndex\<close>), with an odd raw immediate \<open>r \<ge> 32768\<close>
  and a buffer that has a line at the destination: with the signed offset
  \<open>d = r - 65536\<close>, the destination is \<open>i + d\<close>, or 0 if that is negative; the
  address text \<open>addr\<close> is the hexadecimal rendering of \<open>destination * 4\<close> padded
  with zeros to four digits; the label line \<open>Addr_addr:\<close> is spliced in at buffer
  position \<open>destination\<close> unless the line there starts with \<open>Addr\<close>; and the
  branch's own line, which refers to \<open>Addr_addr\<close>, is appended. The pending label is
  not touched. (An even immediate is converted differently, see C2, and is left out.)
\<close>

theorem backward_branch_splices_label:
  assumes "getOpCode w = Inr opc" "map_of iOpcodes opc = Some func"
    and "func = ''beq'' \<or> func = ''bne''"
    and "getRSRegister w i = Inr rs" "getRTRegister w i = Inr rt"
    and "getITypeImmediate w = Inr im" "int_py 10 im = Inr r"
    and "32768 \<le> r" "odd r" "int i \<noteq> checkIndex s"
    and "dest = nat (max 0 (int i + (r - 65536)))" "dest < length (listQ s)"
    and "addr = zfill 4 (to_base 16 (dest * 4))"
  shows "main_step i w s =
           Inr (s\<lparr>listQ :=
                  (if startswith (listQ s ! dest) ''Addr'' then listQ s
                   else take dest (listQ s) @ [''Addr_'' @ addr @ '':''] @ drop dest (listQ s)) @
                  [CHR 0x09 # func @ '', '' @ rt @ '', '' @ rs @ '', Addr_'' @ addr]\<rparr>)"
proof -
  from getITypeImmediate_range[OF assms(6)] obtain n where n: "n < 65536" "im = str_py (int n)"
    by blast
  with assms(7) have r: "r = int n" by (simp add: int_py_str_py)
  with assms(8,9) have "32768 \<le> n" "odd n" by simp_all
  from twosCM_odd[OF this(1) n(1) this(2)] n(2) r
  obtain tcm where tcm: "twosCM im = Inr tcm" "getSignedInteger tcm = Inr (str_py (r - 65536))"
    by (auto simp: ebind_eq_Inr)
  have ti: "(if int i + (r - 65536) < 0 then 0 else nat (int i + (r - 65536))) = dest"
    unfolding assms(11) by simp
  have a: "zfill 4 (remove_0x (hex_py (int dest * 4))) = addr"
    unfolding assms(13) by (simp add: hex_address nat_mult_distrib)
  have "main_step i w s = branch_step i func rs rt im s"
    using assms(1-6) by (rule main_step_branch)
  also have "\<dots> = Inr (s\<lparr>listQ :=
      (if startswith (listQ s ! dest) ''Addr'' then listQ s
       else take dest (listQ s) @ [''Addr_'' @ addr @ '':''] @ drop dest (listQ s)) @
      [CHR 0x09 # func @ '', '' @ rt @ '', '' @ rs @ '', Addr_'' @ addr]\<rparr>)"
    using assms(7,8,10,12) tcm ti a
    by (simp add: branch_step_def ebind_def int_py_str_py py_index_def append_line_def
          fmt4_def fmt_label_def list_insert_def)
  finally show ?thesis .
qed

text \<open>The documented scenario: \<open>bne\<close> with raw immediate \<open>0xFFF9\<close> at slot 10
  of a buffer of ten lines; the label \<open>Addr_000c:\<close> goes to position 3.\<close>

theorem backward_branch_splices_label_witness:
  "getOpCode ''1509fff9'' = Inr ''0x5'' \<and> map_of iOpcodes ''0x5'' = Some ''bne'' \<and>
   getRSRegister ''1509fff9'' 10 = Inr ''$t0'' \<and> getRTRegister ''1509fff9'' 10 = Inr ''$t1'' \<and>
   getITypeImmediate ''1509fff9'' = Inr ''65529'' \<and> int_py 10 ''65529'' = Inr 65529 \<and>
   main_step 10 ''1509fff9''
     \<lparr>listQ = [''n0'', ''n1'', ''n2'', ''n3'', ''n4'', ''n5'', ''n6'', ''n7'', ''n8'', ''n9''],
      tempAddress = [], checkIndex = 0\<rparr> =
   Inr \<lparr>listQ = [''n0'', ''n1'', ''n2'', ''Addr_000c:'', ''n3'', ''n4'', ''n5'', ''n6'', ''n7'',
                 ''n8'', ''n9'', CHR 0x09 # ''bne, $t1, $t0, Addr_000c''],
        tempAddress = [], checkIndex = 0\<rparr>"
proof -
  let ?s = "\<lparr>listQ = [''n0'', ''n1'', ''n2'', ''n3'', ''n4'', ''n5'', ''n6'', ''n7'', ''n8'', ''n9''],
      tempAddress = [], checkIndex = 0\<rparr>"
  have g: "getOpCode ''1509fff9'' = Inr ''0x5''" "map_of iOpcodes ''0x5'' = Some ''bne''"
    "getRSRegister ''1509fff9'' 10 = Inr ''$t0''" "getRTRegister ''1509fff9'' 10 = Inr ''$t1''"
    "getITypeImmediate ''1509fff9'' = Inr ''65529''" "int_py 10 ''65529'' = Inr 65529"
    by (simp_all add: field_eval prim_eval cong: eval_cong)
  have d: "(3::nat) = nat (max 0 (int 10 + (65529 - 65536)))" by simp
  have a: "''000c'' = zfill 4 (to_base 16 (3 * 4))" by (simp add: prim_eval)
  from backward_branch_splices_label[OF g(1,2) _ g(3,4,5,6) _ _ _ d _ a, of ?s]
  have "main_step 10 ''1509fff9'' ?s =
    Inr \<lparr>listQ = [''n0'', ''n1'', ''n2'', ''Addr_000c:'', ''n3'', ''n4'', ''n5'', ''n6'', ''n7'',
                 ''n8'', ''n9'', CHR 0x09 # ''bne, $t1, $t0, Addr_000c''],
        tempAddress = [], checkIndex = 0\<rparr>"
    by (simp add: startswith_def)
  with g show ?thesis by simp
qed

lemma branch_step_buffer:
  assumes "branch_step i func rs rt im s = Inr s'"
  shows "(\<exists>msg. listQ s' = listQ s @ [msg]) \<or>
         (\<exists>p lbl msg. p < length (listQ s) \<and>
            listQ s' = take p (listQ s) @ [lbl] @ drop p (listQ s) @ [msg])"
proof (cases "int i = checkIndex s")
  case True
  with assms show ?thesis by (auto simp: branch_step_def append_line_def)
next
  case False
  with assms obtain r where r: "int_py 10 im = Inr r"
    by (auto simp: branch_step_def ebind_eq_Inr)
  show ?thesis
  proof (cases "32768 \<le> r")
    case fwd: False
    with assms False r show ?thesis
      by (auto simp: branch_step_def ebind_def append_line_def Let_def)
  next
    case True
    with assms False r obtain p line where p: "py_index (listQ s) p = Inr line"
      and s': "s' = append_line (fmt4 func rt rs
                 (''Addr_'' @ zfill 4 (remove_0x (hex_py (int p * 4)))))
               (if startswith line ''Addr'' then s
                else s\<lparr>listQ := list_insert p
                       (fmt_label (zfill 4 (remove_0x (hex_py (int p * 4))))) (listQ s)\<rparr>)"
      by (auto simp: branch_step_def ebind_eq_Inr Let_def)
    from p have "p < length (listQ s)" by (simp add: py_index_eq_Inr)
    with s' show ?thesis by (auto simp: append_line_def list_insert_def)
  qed
qed

lemma main_step_buffer:
  assumes "main_step i w s = Inr s'"
  shows "listQ s' = listQ s \<or> (\<exists>msg. listQ s' = listQ s @ [msg]) \<or>
         (\<exists>p lbl msg. p < length (listQ s) \<and>
            listQ s' = take p (listQ s) @ [lbl] @ drop p (listQ s) @ [msg])"
proof -
  from assms obtain opc where opc: "getOpCode w = Inr opc"
    by (auto simp: main_step_def ebind_eq_Inr)
  show ?thesis
  proof (cases "opc = ''0x4'' \<or> opc = ''0x5''")
    case False
    with main_step_nonbranch[OF opc _ _ assms] show ?thesis by auto
  next
    case True
    then obtain func where f: "map_of iOpcodes opc = Some func" "func = ''beq'' \<or> func = ''bne''"
      using iOpcodes_beq_bne by auto
    with assms opc obtain rs rt im where "getRSRegister w i = Inr rs"
      "getRTRegister w i = Inr rt" "getITypeImmediate w = Inr im"
      using True by (auto simp: main_step_def ebind_eq_Inr)
    with main_step_branch[OF opc f this] assms show ?thesis
      using branch_step_buffer by auto
  qed
qed

lemma subseq_splice: "subseq xs (take p xs @ lbl # drop p xs @ [msg])"
proof -
  have "subseq (take p xs) (take p xs)" by simp
  moreover have "subseq (drop p xs) (lbl # drop p xs @ [msg])"
    by (intro list_emb_Cons subseq_rev_drop_many) simp
  ultimately have "subseq (take p xs @ drop p xs) (take p xs @ lbl # drop p xs @ [msg])"
    by (rule list_emb_append_mono)
  then show ?thesis by simp
qed

lemma main_step_subseq:
  assumes "main_step i w s = Inr s'"
  shows "subseq (listQ s) (listQ s')"
  using main_step_buffer[OF assms] by (auto simp: subseq_splice subseq_rev_drop_many)

lemma main_loop_subseq:
  "main_loop i ws s = Inr s' \<Longrightarrow> subseq (listQ s) (listQ s')"
proof (induction ws arbitrary: i s)
  case Nil
  then show ?case by simp
next
  case (Cons w ws)
  then obtain s1 where s1: "main_step i w s = Inr s1" "main_loop (Suc i) ws s1 = Inr s'"
    by (auto simp: ebind_eq_Inr)
  from main_step_subseq[OF s1(1)] Cons.IH[OF s1(2)] show ?case
    by (rule subseq_order.order_trans)
qed

section \<open>The buffer under a splice\<close>

text \<open>
  C6. When an iteration splices a label (the buffer grows by two lines), the
  new buffer is the old one with the label put in at some position \<open>p\<close> and the
  branch line at the end: every line before \<open>p\<close> keeps its position, every line
  from \<open>p\<close> on moves down by one, and the text of each of them is unchanged. Over
  any stretch of the pass the lines already in the buffer stay in it, unchanged and in
  the same order (the old buffer is a subsequence of the new one): address text in a
  line that was emitted is never computed again.
\<close>

theorem splice_keeps_emitted_lines:
  "(main_step i w s = Inr s' \<and> length (listQ s') = length (listQ s) + 2 \<longrightarrow>
      (\<exists>p lbl msg. p < length (listQ s) \<and>
         listQ s' = take p (listQ s) @ [lbl] @ drop p (listQ s) @ [msg] \<and>
         (\<forall>j. j < p \<longrightarrow> listQ s' ! j = listQ s ! j) \<and>
         (\<forall>j. p \<le> j \<and> j < length (listQ s) \<longrightarrow> listQ s' ! Suc j = listQ s ! j))) \<and>
   (main_loop k ws t = Inr t' \<longrightarrow> subseq (listQ t) (listQ t'))"
proof (rule conjI; rule impI)
  assume a: "main_step i w s = Inr s' \<and> length (listQ s') = length (listQ s) + 2"
  with main_step_buffer[of i w s s'] obtain p lbl msg where p: "p < length (listQ s)"
    and l: "listQ s' = take p (listQ s) @ [lbl] @ drop p (listQ s) @ [msg]"
    by auto
  have "listQ s' ! j = listQ s ! j" if "j < p" for j
    using that p by (simp add: l nth_append)
  moreover have "listQ s' ! Suc j = listQ s ! j" if "p \<le> j \<and> j < length (listQ s)" for j
  proof -
    from that p have "Suc j - p = Suc (j - p)" "j - p < length (listQ s) - p" by arith+
    with that p show ?thesis by (simp add: l nth_append min_def)
  qed
  ultimately show "\<exists>p lbl msg. p < length (listQ s) \<and>
         listQ s' = take p (listQ s) @ [lbl] @ drop p (listQ s) @ [msg] \<and>
         (\<forall>j. j < p \<longrightarrow> listQ s' ! j = listQ s ! j) \<and>
         (\<forall>j. p \<le> j \<and> j < length (listQ s) \<longrightarrow> listQ s' ! Suc j = listQ s ! j)"
    using p l by blast
next
  assume "main_loop k ws t = Inr t'"
  then show "subseq (listQ t) (listQ t')" by (rule main_loop_subseq)
qed

text \<open>A \<open>bne\<close> with raw immediate \<open>0xFFFF\<close> at slot 3 of a buffer of three
  lines: the label goes to position 2.\<close>

theorem splice_keeps_emitted_lines_witness:
  "main_step 3 ''1509ffff'' \<lparr>listQ = [''n0'', ''n1'', ''n2''], tempAddress = [], checkIndex = 0\<rparr> =
     Inr \<lparr>listQ = [''n0'', ''n1'', ''Addr_0008:'', ''n2'', CHR 0x09 # ''bne, $t1, $t0, Addr_0008''],
          tempAddress = [], checkIndex = 0\<rparr> \<and>
   main_loop 3 [''1509ffff''] \<lparr>listQ = [''n0'', ''n1'', ''n2''], tempAddress = [], checkIndex = 0\<rparr> =
     Inr \<lparr>listQ = [''n0'', ''n1'', ''Addr_0008:'', ''n2'', CHR 0x09 # ''bne, $t1, $t0, Addr_0008''],
          tempAddress = [], checkIndex = 0\<rparr> \<and>
   subseq [''n0'', ''n1'', ''n2'']
     [''n0'', ''n1'', ''Addr_0008:'', ''n2'', CHR 0x09 # ''bne, $t1, $t0, Addr_0008'']"
proof -
  let ?s = "\<lparr>listQ = [''n0'', ''n1'', ''n2''], tempAddress = [], checkIndex = 0\<rparr>"
  let ?s' = "\<lparr>listQ = [''n0'', ''n1'', ''Addr_0008:'', ''n2'',
                CHR 0x09 # ''bne, $t1, $t0, Addr_0008''], tempAddress = [], checkIndex = 0\<rparr>"
  have st: "main_step 3 ''1509ffff'' ?s = Inr ?s'"
    by (simp add: main_eval field_eval prim_eval cong: eval_cong)
  then have lp: "main_loop 3 [''1509ffff''] ?s = Inr ?s'" by (simp add: ebind_Inr)
  from splice_keeps_emitted_lines[of 3 "''1509ffff''" ?s ?s' 3 "[''1509ffff'']" ?s ?s'] st lp
  have "subseq (listQ ?s) (listQ ?s')" by simp
  with st lp show ?thesis by simp
qed

end
